theory Spec2Isabelle
  imports Main "HOL-Library.Word" "HOL-Library.Multiset"
begin

unbundle bit_operations_syntax

section \<open>Data model\<close>

text \<open>
  Bytes are 8-bit words, audio samples are 16-bit words (\<open>load_audio\<close> always hands
  out \<open>int16\<close> arrays), and a bit of a Python bit list (an \<open>int\<close> that is 0 or 1) is a
  \<open>bool\<close>.
\<close>

type_synonym byte = "8 word"
type_synonym sample = "16 word"

text \<open>
  A numpy array as the services see it: its shape and its elements in flattened (row-major)
  order. \<open>audio_data.size\<close> and \<open>len(audio_data.flatten())\<close> are the number of elements.
\<close>

record ndarray =
  shape :: "nat list"
  elems :: "sample list"

text \<open>
  Every \<open>raise\<close> of the services is a value. The first constructors are the exceptions of
  Python and its libraries, the next ones the \<open>StegoError\<close>s raised with a fixed message
  (the capacity message carries the required and the available number of bits), and the last
  ones the \<open>StegoError\<close>s that an \<open>except\<close> clause builds around the exception it
  caught (\<open>"Failed to embed message: " + str(e)\<close> and the like).
\<close>

datatype error =
    StructError
  | IndexError
  | ValueError
  | InvalidTag
  | UnicodeEncodeError
  | UnicodeDecodeError
  | InsufficientCapacity nat nat
  | NotEnoughSamples
  | HeaderTooShort
  | HeaderCrcFailed
  | InvalidMagicBytes
  | UnsupportedVersion nat
  | InvalidLsbBits nat
  | AudioTooShortForHeader
  | AudioTooShortForMessage
  | DecryptionInvalidTag
  | DecryptionInvalidEncoding
  | CapacityFailed error
  | EmbedFailed error
  | ExtractFailed error
  | CreateHeaderFailed error
  | ParseHeaderFailed error
  | HeaderParsingFailed error
  | ScatterFailed error
  | EncryptionFailed error
  | DecryptionFailed error
  | KeyDerivationFailed error

text \<open>
  The library functions the services call are parameters of the model:
  \<open>hashlib.sha256(data).digest()\<close> and \<open>random.Random(seed).shuffle\<close> for the scatter
  pattern, and for the crypto service \<open>str.encode('utf-8')\<close>, \<open>bytes.decode('utf-8')\<close>,
  \<open>PBKDF2HMAC(SHA256, length, salt, iterations).derive\<close>, \<open>AESGCM(key).encrypt\<close> and
  \<open>AESGCM(key).decrypt\<close> (without associated data). A library exception is an \<open>Inl\<close>.
\<close>

record pylib =
  sha256_digest :: "byte list \<Rightarrow> byte list"
  random_shuffle :: "nat \<Rightarrow> nat list \<Rightarrow> nat list"

record 's cryptolib =
  utf8_encode :: "'s \<Rightarrow> error + byte list"
  utf8_decode :: "byte list \<Rightarrow> error + 's"
  pbkdf2_derive :: "nat \<Rightarrow> byte list \<Rightarrow> nat \<Rightarrow> byte list \<Rightarrow> byte list"
  aesgcm_encrypt :: "byte list \<Rightarrow> byte list \<Rightarrow> byte list \<Rightarrow> error + byte list"
  aesgcm_decrypt :: "byte list \<Rightarrow> byte list \<Rightarrow> byte list \<Rightarrow> error + byte list"

section \<open>utils/bytes.py: BitPacker\<close>

text \<open>
  \<open>bytes_to_bits\<close>: for every byte, for \<open>i\<close> in \<open>range(8)\<close>, append
  \<open>(byte >> (7 - i)) & 1\<close>.
\<close>

fun bytes_to_bits :: "byte list \<Rightarrow> bool list" where
  "bytes_to_bits [] = []"
| "bytes_to_bits (byte # data) =
     map (\<lambda>i. drop_bit (7 - i) byte AND 1 = 1) [0..<8] @ bytes_to_bits data"

text \<open>
  \<open>bits_to_bytes\<close>: the \<open>while len(bits) % 8 != 0: bits.append(0)\<close> loop, then one byte
  for every \<open>i\<close> in \<open>range(0, len(bits), 8)\<close>, built by
  \<open>byte |= bits[i + j] << (7 - j)\<close> for \<open>j\<close> in \<open>range(8)\<close> under the guard
  \<open>i + j < len(bits)\<close>.
\<close>

function pad_bits :: "bool list \<Rightarrow> bool list" where
  "pad_bits bits = (if length bits mod 8 \<noteq> 0 then pad_bits (bits @ [False]) else bits)"
  by pat_completeness auto
termination
  by (relation "measure (\<lambda>bits. (8 - length bits mod 8) mod 8)") (auto simp: mod_Suc)

declare pad_bits.simps [simp del]

definition pack_byte :: "bool list \<Rightarrow> nat \<Rightarrow> byte" where
  "pack_byte bits i =
     foldl (\<lambda>byte j. if i + j < length bits
                      then byte OR push_bit (7 - j) (of_bool (bits ! (i + j)))
                      else byte) 0 [0..<8]"

definition bits_to_bytes :: "bool list \<Rightarrow> byte list" where
  "bits_to_bytes bits0 =
     (let bits = pad_bits bits0
      in map (\<lambda>k. pack_byte bits (8 * k)) [0..<(length bits + 7) div 8])"

text \<open>
  \<open>calculate_crc32\<close> is \<open>zlib.crc32(data) & 0xffffffff\<close>: the reflected CRC-32 with
  polynomial \<open>0xEDB88320\<close>, initial value and final complement \<open>0xFFFFFFFF\<close>, here bit
  by bit.
\<close>

definition crc32_step :: "32 word \<Rightarrow> 32 word" where
  "crc32_step c = (if bit c 0 then drop_bit 1 c XOR 0xEDB88320 else drop_bit 1 c)"

definition crc32_byte :: "32 word \<Rightarrow> byte \<Rightarrow> 32 word" where
  "crc32_byte c b = (crc32_step ^^ 8) (c XOR ucast b)"

definition zlib_crc32 :: "byte list \<Rightarrow> 32 word" where
  "zlib_crc32 data = NOT (foldl crc32_byte (NOT 0) data)"

definition calculate_crc32 :: "byte list \<Rightarrow> nat" where
  "calculate_crc32 data = unat (zlib_crc32 data AND 0xffffffff)"

section \<open>The struct formats of the header\<close>

text \<open>
  \<open>struct.pack\<close> with \<open>'Ns'\<close> truncates the bytes to \<open>N\<close> or pads them with null
  bytes; with \<open>'B'\<close> and \<open>'>I'\<close> it raises \<open>struct.error\<close> when the number is out of
  range. \<open>struct.unpack\<close> raises \<open>struct.error\<close> unless the buffer has exactly the size of
  the format (38 bytes for \<open>'>4s B B 16s 12s I'\<close>, 4 for \<open>'>I'\<close>).
\<close>

definition pack_s :: "nat \<Rightarrow> byte list \<Rightarrow> byte list" where
  "pack_s n bs = take n bs @ replicate (n - length bs) 0"

definition be32 :: "nat \<Rightarrow> byte list" where
  "be32 n = [of_nat (n div 2 ^ 24), of_nat (n div 2 ^ 16), of_nat (n div 2 ^ 8), of_nat n]"

definition int_from_bytes_big :: "byte list \<Rightarrow> nat" where
  "int_from_bytes_big bs = foldl (\<lambda>a b. a * 256 + unat b) 0 bs"

definition struct_pack_I :: "nat \<Rightarrow> error + byte list" where
  "struct_pack_I n = (if n < 2 ^ 32 then Inr (be32 n) else Inl StructError)"

definition struct_unpack_I :: "byte list \<Rightarrow> error + nat" where
  "struct_unpack_I bs = (if length bs = 4 then Inr (int_from_bytes_big bs) else Inl StructError)"

definition struct_pack_header ::
  "byte list \<Rightarrow> nat \<Rightarrow> nat \<Rightarrow> byte list \<Rightarrow> byte list \<Rightarrow> nat \<Rightarrow> error + byte list" where
  "struct_pack_header magic ver flags salt nonce payload_length =
     (if ver < 256 \<and> flags < 256 \<and> payload_length < 2 ^ 32
      then Inr (pack_s 4 magic @ [of_nat ver] @ [of_nat flags] @ pack_s 16 salt
                @ pack_s 12 nonce @ be32 payload_length)
      else Inl StructError)"

definition struct_unpack_header ::
  "byte list \<Rightarrow> error + (byte list \<times> nat \<times> nat \<times> byte list \<times> byte list \<times> nat)" where
  "struct_unpack_header bs =
     (if length bs = 38
      then Inr (take 4 bs, unat (bs ! 4), unat (bs ! 5), take 16 (drop 6 bs),
                take 12 (drop 22 bs), int_from_bytes_big (drop 34 bs))
      else Inl StructError)"

section \<open>services/stego.py: StegoService\<close>

definition magic_bytes :: "byte list" where
  "magic_bytes = [0x41, 0x53, 0x54, 0x47]"

definition version :: nat where
  "version = 1"

definition header_size :: nat where
  "header_size = 42"

text \<open>
  \<open>calculate_capacity\<close>, from the array that \<open>load_audio\<close> returned on: the number of
  samples is \<open>len(audio_data)\<close> for a one-dimensional array and
  \<open>shape[0] * shape[1]\<close> otherwise (an \<open>IndexError\<close> when there is no such entry); any
  exception is wrapped.
\<close>

definition calculate_capacity :: "ndarray \<Rightarrow> nat \<Rightarrow> error + int" where
  "calculate_capacity audio_data lsb_bits =
     (case (case shape audio_data of
              [n] \<Rightarrow> Inr n
            | n # m # _ \<Rightarrow> Inr (n * m)
            | _ \<Rightarrow> Inl IndexError) of
        Inl e \<Rightarrow> Inl (CapacityFailed e)
      | Inr total_samples \<Rightarrow>
          let total_bits = total_samples * lsb_bits;
              total_bytes = total_bits div 8;
              available_bytes = max 0 (int total_bytes - int header_size)
          in Inr available_bytes)"

subsection \<open>Header codec\<close>

definition create_header ::
  "byte list \<Rightarrow> byte list \<Rightarrow> nat \<Rightarrow> nat \<Rightarrow> bool \<Rightarrow> error + byte list" where
  "create_header salt nonce payload_length lsb_bits scatter =
     (let flags = lsb_bits AND 3;
          flags = (if scatter then flags OR 4 else flags)
      in case struct_pack_header magic_bytes version flags salt nonce payload_length of
           Inl e \<Rightarrow> Inl (CreateHeaderFailed e)
         | Inr header \<Rightarrow>
             (case struct_pack_I (calculate_crc32 header) of
                Inl e \<Rightarrow> Inl (CreateHeaderFailed e)
              | Inr crc \<Rightarrow> Inr (header @ crc)))"

record header_info =
  h_version :: nat
  h_lsb_bits :: nat
  h_scatter :: bool
  h_salt :: "byte list"
  h_nonce :: "byte list"
  h_payload_length :: nat

text \<open>
  \<open>_parse_header\<close>. \<open>header_bytes[:-4]\<close> and \<open>header_bytes[-4:]\<close> are taken after the
  length check, so there are at least 42 bytes. A \<open>struct.error\<close> is caught by the first
  \<open>except\<close> clause, every \<open>StegoError\<close> raised inside by the second.
\<close>

definition parse_header :: "byte list \<Rightarrow> error + header_info" where
  "parse_header header_bytes =
     (if length header_bytes < header_size then Inl (ParseHeaderFailed HeaderTooShort)
      else
        let header_without_crc = take (length header_bytes - 4) header_bytes;
            expected_crc = calculate_crc32 header_without_crc
        in case struct_unpack_I (drop (length header_bytes - 4) header_bytes) of
             Inl e \<Rightarrow> Inl (HeaderParsingFailed e)
           | Inr actual_crc \<Rightarrow>
               if expected_crc \<noteq> actual_crc then Inl (ParseHeaderFailed HeaderCrcFailed)
               else
                 (case struct_unpack_header header_without_crc of
                    Inl e \<Rightarrow> Inl (HeaderParsingFailed e)
                  | Inr (magic, ver, flags, salt, nonce, payload_length) \<Rightarrow>
                      if magic \<noteq> magic_bytes then Inl (ParseHeaderFailed InvalidMagicBytes)
                      else if ver \<noteq> version
                      then Inl (ParseHeaderFailed (UnsupportedVersion ver))
                      else
                        let lsb_bits = flags AND 3;
                            scatter = (flags AND 4 \<noteq> 0)
                        in if lsb_bits < 1 \<or> lsb_bits > 3
                           then Inl (ParseHeaderFailed (InvalidLsbBits lsb_bits))
                           else Inr \<lparr>h_version = ver, h_lsb_bits = lsb_bits,
                                     h_scatter = scatter, h_salt = salt, h_nonce = nonce,
                                     h_payload_length = payload_length\<rparr>))"

subsection \<open>Scatter pattern\<close>

definition scatter_tag :: "byte list" where
  "scatter_tag = [0x73, 0x63, 0x61, 0x74, 0x74, 0x65, 0x72]"

text \<open>
  \<open>_generate_scatter_indices\<close> (\<open>cnt\<close> is its \<open>count\<close>). The seed is computed before
  the count is checked;
  \<open>total_samples\<close> is an integer (the callers pass a difference) and \<open>range\<close> of a
  negative number is empty.
\<close>

definition generate_scatter_indices :: "pylib \<Rightarrow> nat \<Rightarrow> int \<Rightarrow> byte list \<Rightarrow> error + nat list" where
  "generate_scatter_indices lib cnt total_samples salt =
     (let seed_data = salt @ scatter_tag;
          seed = int_from_bytes_big (take 4 (sha256_digest lib seed_data))
      in if int cnt > total_samples then Inl (ScatterFailed NotEnoughSamples)
         else
           let indices = [0..<nat total_samples];
               indices = random_shuffle lib seed indices
           in Inr (take cnt indices))"

subsection \<open>Embedding\<close>

text \<open>
  The body of both embedding loops: \<open>mask = ~((1 << lsb_bits) - 1)\<close>, the sample is cleared
  with it and bit 0 is set when the payload bit is 1. On \<open>int16\<close> samples the mask is the
  16-bit word of the same bits.
\<close>

definition write_sample :: "nat \<Rightarrow> bool \<Rightarrow> sample \<Rightarrow> sample" where
  "write_sample lsb_bits b smp =
     (let mask = NOT (push_bit lsb_bits 1 - 1);
          cleared_sample = smp AND mask
      in if b then cleared_sample OR 1 else cleared_sample)"

text \<open>
  One embedding loop, \<open>for i, bit in enumerate(bits)\<close>: \<open>sample_idx\<close> gives the sample
  position of bit \<open>i\<close> (or the \<open>IndexError\<close> of \<open>payload_indices[i]\<close>), and reading or
  writing \<open>flat_audio[sample_idx]\<close> beyond the array raises \<open>IndexError\<close>.
\<close>

fun embed_bits ::
  "nat \<Rightarrow> (nat \<Rightarrow> error + nat) \<Rightarrow> (nat \<times> bool) list \<Rightarrow> sample list \<Rightarrow> error + sample list" where
  "embed_bits lsb_bits sample_idx [] flat_audio = Inr flat_audio"
| "embed_bits lsb_bits sample_idx ((i, b) # rest) flat_audio =
     (case sample_idx i of
        Inl e \<Rightarrow> Inl e
      | Inr k \<Rightarrow>
          if k < length flat_audio
          then embed_bits lsb_bits sample_idx rest
                 (flat_audio[k := write_sample lsb_bits b (flat_audio ! k)])
          else Inl IndexError)"

definition list_index :: "nat list \<Rightarrow> nat \<Rightarrow> error + nat" where
  "list_index xs i = (if i < length xs then Inr (xs ! i) else Inl IndexError)"

definition embed_message ::
  "pylib \<Rightarrow> ndarray \<Rightarrow> byte list \<Rightarrow> byte list \<Rightarrow> byte list \<Rightarrow> nat \<Rightarrow> bool \<Rightarrow> error + ndarray" where
  "embed_message lib audio_data encrypted_data salt nonce lsb_bits scatter =
     (case create_header salt nonce (length encrypted_data) lsb_bits scatter of
        Inl e \<Rightarrow> Inl (EmbedFailed e)
      | Inr header \<Rightarrow>
          let payload = header @ encrypted_data;
              total_samples = length (elems audio_data);
              required_bits = length payload * 8;
              available_bits = total_samples * lsb_bits
          in if required_bits > available_bits
             then Inl (EmbedFailed (InsufficientCapacity required_bits available_bits))
             else
               let flat_audio = elems audio_data;
                   payload_bits = bytes_to_bits payload;
                   header_bits = take (header_size * 8) payload_bits;
                   payload_data_bits = drop (header_size * 8) payload_bits
               in case embed_bits lsb_bits Inr (enumerate 0 header_bits) flat_audio of
                    Inl e \<Rightarrow> Inl (EmbedFailed e)
                  | Inr flat_audio \<Rightarrow>
                      (case (if scatter
                             then generate_scatter_indices lib (length payload_data_bits)
                                    (int total_samples - int (header_size * 8)) salt
                             else Inr []) of
                         Inl e \<Rightarrow> Inl (EmbedFailed e)
                       | Inr payload_indices \<Rightarrow>
                           (case embed_bits lsb_bits
                                   (\<lambda>i. if scatter
                                        then (case list_index payload_indices i of
                                                Inl e \<Rightarrow> Inl e
                                              | Inr idx \<Rightarrow> Inr (header_size * 8 + idx))
                                        else Inr (header_size * 8 + i))
                                   (enumerate 0 payload_data_bits) flat_audio of
                              Inl e \<Rightarrow> Inl (EmbedFailed e)
                            | Inr flat_audio \<Rightarrow> Inr (audio_data\<lparr>elems := flat_audio\<rparr>))))"

subsection \<open>Extraction\<close>

text \<open>
  One extraction loop: for every sample position in turn, raise the given error when the
  position is beyond the array, else append \<open>sample & 1\<close>.
\<close>

fun extract_bits :: "error \<Rightarrow> nat list \<Rightarrow> sample list \<Rightarrow> error + bool list" where
  "extract_bits err [] flat_audio = Inr []"
| "extract_bits err (actual_idx # rest) flat_audio =
     (if actual_idx \<ge> length flat_audio then Inl err
      else case extract_bits err rest flat_audio of
             Inl e \<Rightarrow> Inl e
           | Inr bits \<Rightarrow> Inr ((flat_audio ! actual_idx AND 1 = 1) # bits))"

definition extract_message :: "pylib \<Rightarrow> ndarray \<Rightarrow> error + (byte list \<times> byte list \<times> byte list)" where
  "extract_message lib audio_data =
     (let flat_audio = elems audio_data;
          header_bits_needed = header_size * 8
      in case extract_bits AudioTooShortForHeader [0..<header_bits_needed] flat_audio of
           Inl e \<Rightarrow> Inl (ExtractFailed e)
         | Inr header_bits \<Rightarrow>
             (case parse_header (bits_to_bytes header_bits) of
                Inl e \<Rightarrow> Inl (ExtractFailed e)
              | Inr header_info \<Rightarrow>
                  let payload_size = h_payload_length header_info;
                      scatter = h_scatter header_info;
                      salt = h_salt header_info;
                      nonce = h_nonce header_info
                  in case (if scatter
                           then (case generate_scatter_indices lib (payload_size * 8)
                                        (int (length flat_audio) - int header_bits_needed) salt of
                                   Inl e \<Rightarrow> Inl e
                                 | Inr payload_indices \<Rightarrow>
                                     extract_bits AudioTooShortForMessage
                                       (map (\<lambda>idx. header_bits_needed + idx) payload_indices)
                                       flat_audio)
                           else extract_bits AudioTooShortForMessage
                                  (map (\<lambda>i. header_bits_needed + i) [0..<payload_size * 8])
                                  flat_audio) of
                       Inl e \<Rightarrow> Inl (ExtractFailed e)
                     | Inr payload_bits \<Rightarrow> Inr (bits_to_bytes payload_bits, salt, nonce)))"

subsection \<open>Embedding on a store of buffers\<close>

text \<open>
  To see what \<open>embed_message\<close> does to the caller's array, the same function once more with
  the sample buffers in a store: an array object is the address of its buffer and a shape;
  \<open>flatten()\<close> and \<open>copy()\<close> each allocate a buffer, \<open>reshape\<close> gives a view on the buffer
  it is applied to, and \<open>flat_audio[sample_idx] = new_sample\<close> updates the store at the buffer
  of \<open>flat_audio\<close>. The store is returned also when the call raises.
\<close>

type_synonym store = "sample list list"

record ndview =
  nd_buf :: nat
  nd_shape :: "nat list"

definition np_flatten :: "store \<Rightarrow> ndview \<Rightarrow> store \<times> ndview" where
  "np_flatten st a =
     (st @ [st ! nd_buf a], \<lparr>nd_buf = length st, nd_shape = [length (st ! nd_buf a)]\<rparr>)"

definition np_copy :: "store \<Rightarrow> ndview \<Rightarrow> store \<times> ndview" where
  "np_copy st a = (st @ [st ! nd_buf a], \<lparr>nd_buf = length st, nd_shape = nd_shape a\<rparr>)"

definition np_reshape :: "ndview \<Rightarrow> nat list \<Rightarrow> ndview" where
  "np_reshape a shp = \<lparr>nd_buf = nd_buf a, nd_shape = shp\<rparr>"

fun embed_bits_st ::
  "nat \<Rightarrow> (nat \<Rightarrow> error + nat) \<Rightarrow> (nat \<times> bool) list \<Rightarrow> ndview \<Rightarrow> store \<Rightarrow> store \<times> error option" where
  "embed_bits_st lsb_bits sample_idx [] flat_audio st = (st, None)"
| "embed_bits_st lsb_bits sample_idx ((i, b) # rest) flat_audio st =
     (case sample_idx i of
        Inl e \<Rightarrow> (st, Some e)
      | Inr k \<Rightarrow>
          if k < length (st ! nd_buf flat_audio)
          then embed_bits_st lsb_bits sample_idx rest flat_audio
                 (st[nd_buf flat_audio :=
                       (st ! nd_buf flat_audio)
                         [k := write_sample lsb_bits b (st ! nd_buf flat_audio ! k)]])
          else (st, Some IndexError))"

definition embed_message_st ::
  "pylib \<Rightarrow> store \<Rightarrow> ndview \<Rightarrow> byte list \<Rightarrow> byte list \<Rightarrow> byte list \<Rightarrow> nat \<Rightarrow> bool
     \<Rightarrow> store \<times> (error + ndview)" where
  "embed_message_st lib st audio_data encrypted_data salt nonce lsb_bits scatter =
     (case create_header salt nonce (length encrypted_data) lsb_bits scatter of
        Inl e \<Rightarrow> (st, Inl (EmbedFailed e))
      | Inr header \<Rightarrow>
          let payload = header @ encrypted_data;
              total_samples = length (st ! nd_buf audio_data);
              required_bits = length payload * 8;
              available_bits = total_samples * lsb_bits
          in if required_bits > available_bits
             then (st, Inl (EmbedFailed (InsufficientCapacity required_bits available_bits)))
             else
               let original_shape = nd_shape audio_data;
                   (st, flattened) = np_flatten st audio_data;
                   (st, flat_audio) = np_copy st flattened;
                   payload_bits = bytes_to_bits payload;
                   header_bits = take (header_size * 8) payload_bits;
                   payload_data_bits = drop (header_size * 8) payload_bits
               in case embed_bits_st lsb_bits Inr (enumerate 0 header_bits) flat_audio st of
                    (st, Some e) \<Rightarrow> (st, Inl (EmbedFailed e))
                  | (st, None) \<Rightarrow>
                      (case (if scatter
                             then generate_scatter_indices lib (length payload_data_bits)
                                    (int total_samples - int (header_size * 8)) salt
                             else Inr []) of
                         Inl e \<Rightarrow> (st, Inl (EmbedFailed e))
                       | Inr payload_indices \<Rightarrow>
                           (case embed_bits_st lsb_bits
                                   (\<lambda>i. if scatter
                                        then (case list_index payload_indices i of
                                                Inl e \<Rightarrow> Inl e
                                              | Inr idx \<Rightarrow> Inr (header_size * 8 + idx))
                                        else Inr (header_size * 8 + i))
                                   (enumerate 0 payload_data_bits) flat_audio st of
                              (st, Some e) \<Rightarrow> (st, Inl (EmbedFailed e))
                            | (st, None) \<Rightarrow> (st, Inr (np_reshape flat_audio original_shape)))))"

section \<open>services/crypto.py: CryptoService\<close>

definition key_iterations :: nat where
  "key_iterations = 200000"

definition key_length :: nat where
  "key_length = 32"

definition salt_length :: nat where
  "salt_length = 16"

definition nonce_length :: nat where
  "nonce_length = 12"

definition derive_key :: "'s cryptolib \<Rightarrow> 's \<Rightarrow> byte list \<Rightarrow> error + byte list" where
  "derive_key clib password salt =
     (case utf8_encode clib password of
        Inl e \<Rightarrow> Inl (KeyDerivationFailed e)
      | Inr password_bytes \<Rightarrow>
          Inr (pbkdf2_derive clib key_length salt key_iterations password_bytes))"

text \<open>
  \<open>encrypt_message\<close>; \<open>salt\<close> and \<open>nonce\<close> are the results of
  \<open>os.urandom(self.salt_length)\<close> and \<open>os.urandom(self.nonce_length)\<close>.
\<close>

definition encrypt_message ::
  "'s cryptolib \<Rightarrow> byte list \<Rightarrow> byte list \<Rightarrow> 's \<Rightarrow> 's
     \<Rightarrow> error + (byte list \<times> byte list \<times> byte list)" where
  "encrypt_message clib salt nonce message password =
     (case utf8_encode clib message of
        Inl e \<Rightarrow> Inl (EncryptionFailed e)
      | Inr message_bytes \<Rightarrow>
          (case derive_key clib password salt of
             Inl e \<Rightarrow> Inl (EncryptionFailed e)
           | Inr key \<Rightarrow>
               (case aesgcm_encrypt clib key nonce message_bytes of
                  Inl e \<Rightarrow> Inl (EncryptionFailed e)
                | Inr encrypted_data \<Rightarrow> Inr (encrypted_data, salt, nonce))))"

definition decrypt_message ::
  "'s cryptolib \<Rightarrow> byte list \<Rightarrow> 's \<Rightarrow> byte list \<Rightarrow> byte list \<Rightarrow> error + 's" where
  "decrypt_message clib encrypted_data password salt nonce =
     (case derive_key clib password salt of
        Inl e \<Rightarrow> Inl (DecryptionFailed e)
      | Inr key \<Rightarrow>
          (case aesgcm_decrypt clib key nonce encrypted_data of
             Inl e \<Rightarrow> Inl (if e = InvalidTag then DecryptionInvalidTag else DecryptionFailed e)
           | Inr decrypted_bytes \<Rightarrow>
               (case utf8_decode clib decrypted_bytes of
                  Inl e \<Rightarrow>
                    Inl (if e = UnicodeDecodeError then DecryptionInvalidEncoding
                         else DecryptionFailed e)
                | Inr message \<Rightarrow> Inr message)))"

section \<open>tabs_decode.py: the decoding steps of decode\_worker\<close>

text \<open>
  After loading the audio, \<open>decode_worker\<close> calls \<open>extract_message\<close> and then
  \<open>decrypt_message\<close> with what it returned; an exception of the first ends the worker.
\<close>

definition decode_worker :: "'s cryptolib \<Rightarrow> pylib \<Rightarrow> ndarray \<Rightarrow> 's \<Rightarrow> error + 's" where
  "decode_worker clib lib audio_data password =
     (case extract_message lib audio_data of
        Inl e \<Rightarrow> Inl e
      | Inr (encrypted_data, salt, nonce) \<Rightarrow>
          decrypt_message clib encrypted_data password salt nonce)"

section \<open>Assumptions on the libraries, and an instance to run the model on\<close>

text \<open>
  \<open>random.shuffle\<close> permutes the list it is given. Nothing else is assumed of the scatter
  libraries.
\<close>

definition shuffle_permutes :: "pylib \<Rightarrow> bool" where
  "shuffle_permutes lib \<longleftrightarrow> (\<forall>seed xs. mset (random_shuffle lib seed xs) = mset xs)"

text \<open>
  Of the crypto libraries: encoding a string and decoding the bytes gives the string back,
  and AES-GCM decryption under the key and nonce of the encryption returns the plaintext.
\<close>

definition crypto_roundtrip :: "'s cryptolib \<Rightarrow> bool" where
  "crypto_roundtrip clib \<longleftrightarrow>
     (\<forall>s bs. utf8_encode clib s = Inr bs \<longrightarrow> utf8_decode clib bs = Inr s)
     \<and> (\<forall>key nonce msg ct. aesgcm_encrypt clib key nonce msg = Inr ct
            \<longrightarrow> aesgcm_decrypt clib key nonce ct = Inr msg)"

text \<open>
  Stand-ins with these properties, for running the model on concrete inputs: a digest that
  pads or cuts its input to 32 bytes, a shuffle that rotates by the seed and reverses, a
  string type whose encoding is its bytes, a key derivation that concatenates, and a cipher
  that XORs with the first key byte and appends a 16-byte tag of that byte.
\<close>

definition example_lib :: pylib where
  "example_lib =
     \<lparr>sha256_digest = (\<lambda>data. take 32 (data @ replicate 32 0)),
      random_shuffle = (\<lambda>seed xs. rev (rotate seed xs))\<rparr>"

definition example_cryptolib :: "byte list cryptolib" where
  "example_cryptolib =
     \<lparr>utf8_encode = Inr,
      utf8_decode = Inr,
      pbkdf2_derive = (\<lambda>len salt iterations password_bytes. take len (password_bytes @ salt @ replicate len 0)),
      aesgcm_encrypt = (\<lambda>key nonce msg. Inr (map (\<lambda>b. b XOR hd key) msg @ replicate 16 (hd key))),
      aesgcm_decrypt = (\<lambda>key nonce ct.
         if 16 \<le> length ct \<and> drop (length ct - 16) ct = replicate 16 (hd key)
         then Inr (map (\<lambda>b. b XOR hd key) (take (length ct - 16) ct))
         else Inl InvalidTag)\<rparr>"

text \<open>The effect of an embedding loop on the flat sample list, as a fold over the writes.\<close>

abbreviation write_all :: "nat \<Rightarrow> (nat \<times> bool) list \<Rightarrow> sample list \<Rightarrow> sample list" where
  "write_all lsb_bits ps flat \<equiv>
     fold (\<lambda>(k, b) fl. fl[k := write_sample lsb_bits b (fl ! k)]) ps flat"

section \<open>Verification: bit packer\<close>

lemma upt8: "[0..<8] = [0,1,2,3,4,5,6,7::nat]"
  by (simp add: upt_rec)

lemma pad_bits_eq: "pad_bits bits = bits @ replicate ((8 - length bits mod 8) mod 8) False"
proof (induction bits rule: pad_bits.induct)
  case (1 bits)
  show ?case
  proof (cases "length bits mod 8 = 0")
    case True
    then show ?thesis by (simp add: pad_bits.simps)
  next
    case False
    have "(8 - length bits mod 8) mod 8 = Suc ((8 - Suc (length bits) mod 8) mod 8)"
      using False by (auto simp: mod_Suc)
    with False 1 show ?thesis
      by (subst pad_bits.simps) (simp add: replicate_app_Cons_same)
  qed
qed

lemma bit_pack_byte:
  "bit (pack_byte bits i) m \<longleftrightarrow> m < 8 \<and> i + (7 - m) < length bits \<and> bits ! (i + (7 - m))"
proof (cases "m < 8")
  case False
  then show ?thesis using bit_imp_le_length[of "pack_byte bits i" m] by auto
next
  case True
  then consider "m = 0" | "m = 1" | "m = 2" | "m = 3" | "m = 4" | "m = 5" | "m = 6" | "m = 7"
    by linarith
  then show ?thesis
    by cases (simp_all add: pack_byte_def upt8 bit_simps)
qed

lemma length_bytes_to_bits: "length (bytes_to_bits b) = 8 * length b"
  by (induction b) simp_all

lemma byte_shift_and_one: "(drop_bit n (byte :: byte) AND 1 = 1) = bit byte n"
  by (simp add: and_one_eq bit_iff_odd_drop_bit mod2_eq_if)

lemma bytes_to_bits_Cons:
  "bytes_to_bits (byte # data) = map (\<lambda>i. bit byte (7 - i)) [0..<8] @ bytes_to_bits data"
  by (simp add: byte_shift_and_one del: upt_Suc)

lemma nth_bytes_to_bits:
  "k < 8 * length b \<Longrightarrow> bytes_to_bits b ! k = bit (b ! (k div 8)) (7 - k mod 8)"
proof (induction b arbitrary: k)
  case Nil
  then show ?case by simp
next
  case (Cons byte data)
  show ?case
  proof (cases "k < 8")
    case True
    then show ?thesis
      by (simp only: bytes_to_bits_Cons) (simp add: nth_append del: upt_Suc)
  next
    case False
    then obtain k' where k': "k = 8 + k'" by (metis le_Suc_ex not_less)
    with Cons.prems have "k' < 8 * length data" by simp
    moreover have "(8 + k') div 8 = Suc (k' div 8)" by simp
    ultimately show ?thesis using Cons.IH[of k'] k'
      by (simp only: bytes_to_bits_Cons) (simp add: nth_append del: upt_Suc)
  qed
qed

lemma pad_len: "(n::nat) + (8 - n mod 8) mod 8 = 8 * ((n + 7) div 8)"
proof -
  define q r where "q = n div 8" and "r = n mod 8"
  then have n: "n = 8 * q + r" and r: "r < 8" by simp_all
  show ?thesis
  proof (cases "r = 0")
    case True
    with n show ?thesis by simp
  next
    case False
    with r have "(8 * q + r + 7) div 8 = q + 1" by linarith
    moreover have "(8 * q + r) mod 8 = r" using r by simp
    ultimately show ?thesis using n r False by simp
  qed
qed

lemma length_pad_bits: "length (pad_bits bits) = 8 * ((length bits + 7) div 8)"
  by (simp add: pad_bits_eq pad_len)

lemma length_bits_to_bytes: "length (bits_to_bytes bits) = (length bits + 7) div 8"
  by (simp add: bits_to_bytes_def Let_def length_pad_bits)

lemma bit_pack_byte_msb:
  "j < 8 \<Longrightarrow> bit (pack_byte bits i) (7 - j) \<longleftrightarrow> i + j < length bits \<and> bits ! (i + j)"
proof -
  assume "j < 8"
  then have "7 - (7 - j) = j" "7 - j < 8" by simp_all
  then show ?thesis by (simp only: bit_pack_byte) simp
qed

lemma bit_nth_bits_to_bytes:
  assumes "k < (length bits + 7) div 8" and "j < 8"
  shows "bit (bits_to_bytes bits ! k) (7 - j) \<longleftrightarrow>
           8 * k + j < length bits \<and> bits ! (8 * k + j)"
proof -
  have "bits_to_bytes bits ! k = pack_byte (pad_bits bits) (8 * k)"
    using assms by (simp add: bits_to_bytes_def Let_def length_pad_bits)
  moreover have "8 * k + j < length (pad_bits bits)"
    using assms by (simp add: length_pad_bits)
  ultimately show ?thesis
    using assms(2) by (auto simp: bit_pack_byte_msb pad_bits_eq nth_append)
qed

lemma bits_to_bytes_bytes_to_bits: "bits_to_bytes (bytes_to_bits b) = b"
proof (rule nth_equalityI)
  show "length (bits_to_bytes (bytes_to_bits b)) = length b"
    by (simp add: length_bits_to_bytes length_bytes_to_bits)
next
  fix k assume "k < length (bits_to_bytes (bytes_to_bits b))"
  then have k: "k < length b"
    by (simp add: length_bits_to_bytes length_bytes_to_bits)
  show "bits_to_bytes (bytes_to_bits b) ! k = b ! k"
  proof (rule bit_word_eqI)
    fix m assume "m < LENGTH(8)"
    then have m: "m < 8" by simp
    define j where "j = 7 - m"
    with m have j: "j < 8" and mj: "m = 7 - j" by simp_all
    from k j have lt: "8 * k + j < 8 * length b" by simp
    have dm: "(8 * k + j) div 8 = k" "(8 * k + j) mod 8 = j" using j by simp_all
    have "bit (bits_to_bytes (bytes_to_bits b) ! k) (7 - j) = bytes_to_bits b ! (8 * k + j)"
      using k j lt by (simp add: bit_nth_bits_to_bytes length_bytes_to_bits)
    also have "\<dots> = bit (b ! k) (7 - j)"
      using nth_bytes_to_bits[OF lt] by (simp only: dm)
    finally show "bit (bits_to_bytes (bytes_to_bits b) ! k) m = bit (b ! k) m"
      by (simp only: mj)
  qed
qed

lemma bits_to_bytes_padded:
  "bits_to_bytes bits = bits_to_bytes (bits @ replicate ((8 - length bits mod 8) mod 8) False)"
proof -
  have "pad_bits (bits @ replicate ((8 - length bits mod 8) mod 8) False) = pad_bits bits"
    by (subst pad_bits.simps) (simp add: pad_bits_eq pad_len)
  then show ?thesis by (simp add: bits_to_bytes_def)
qed


text \<open>
  Claim C8. \<open>bytes_to_bits b\<close> has exactly \<open>8 * len(b)\<close> bits and is the expansion of the
  bytes most significant bit first; \<open>bits_to_bytes\<close> inverts it; and \<open>bits_to_bytes\<close> of any
  bit list is \<open>bits_to_bytes\<close> of the list padded on the right with zero bits to a multiple
  of 8, with one byte per group of 8 whose bits are the bits of the group (zero where the
  list has ended).
\<close>

theorem bit_packer_invertible:
  "length (bytes_to_bits b) = 8 * length b
   \<and> (\<forall>k < 8 * length b. bytes_to_bits b ! k = bit (b ! (k div 8)) (7 - k mod 8))
   \<and> bits_to_bytes (bytes_to_bits b) = b
   \<and> bits_to_bytes bits
       = bits_to_bytes (bits @ replicate ((8 - length bits mod 8) mod 8) False)
   \<and> length (bits_to_bytes bits) = (length bits + 7) div 8
   \<and> (\<forall>k < (length bits + 7) div 8. \<forall>j < 8.
         bit (bits_to_bytes bits ! k) (7 - j)
           \<longleftrightarrow> 8 * k + j < length bits \<and> bits ! (8 * k + j))"
proof (intro conjI allI impI)
  show "length (bytes_to_bits b) = 8 * length b"
    by (rule length_bytes_to_bits)
  show "bytes_to_bits b ! k = bit (b ! (k div 8)) (7 - k mod 8)" if "k < 8 * length b" for k
    using that by (rule nth_bytes_to_bits)
  show "bits_to_bytes (bytes_to_bits b) = b"
    by (rule bits_to_bytes_bytes_to_bits)
  show "bits_to_bytes bits
          = bits_to_bytes (bits @ replicate ((8 - length bits mod 8) mod 8) False)"
    by (rule bits_to_bytes_padded)
  show "length (bits_to_bytes bits) = (length bits + 7) div 8"
    by (rule length_bits_to_bytes)
  show "bit (bits_to_bytes bits ! k) (7 - j) \<longleftrightarrow> 8 * k + j < length bits \<and> bits ! (8 * k + j)"
    if "k < (length bits + 7) div 8" "j < 8" for k j
    using that by (rule bit_nth_bits_to_bytes)
qed

theorem bit_packer_invertible_witness:
  "length (bytes_to_bits [0xA5]) = 8
   \<and> bytes_to_bits [0xA5] ! 0 = bit (0xA5 :: byte) 7
   \<and> bits_to_bytes (bytes_to_bits [0xA5]) = [0xA5]
   \<and> bits_to_bytes [True, False, True]
       = bits_to_bytes ([True, False, True] @ replicate ((8 - length [True, False, True] mod 8) mod 8) False)
   \<and> length (bits_to_bytes [True, False, True]) = 1
   \<and> bit (bits_to_bytes [True, False, True] ! 0) (7 - 2)"
proof -
  note t = bit_packer_invertible[of "[0xA5]" "[True, False, True]"]
  have a: "(0::nat) < 8 * length [0xA5 :: byte]"
    and b: "(0::nat) < (length [True, False, True] + 7) div 8"
    and c: "(2::nat) < 8"
    by simp_all
  have "length (bytes_to_bits [0xA5]) = 8"
    using t[THEN conjunct1] by simp
  moreover have "bytes_to_bits [0xA5] ! 0 = bit (0xA5 :: byte) 7"
    using t[THEN conjunct2, THEN conjunct1, rule_format, OF a] by simp
  moreover have "bits_to_bytes (bytes_to_bits [0xA5]) = [0xA5]"
    using t[THEN conjunct2, THEN conjunct2, THEN conjunct1] .
  moreover have "bits_to_bytes [True, False, True]
       = bits_to_bytes ([True, False, True] @ replicate ((8 - length [True, False, True] mod 8) mod 8) False)"
    using t[THEN conjunct2, THEN conjunct2, THEN conjunct2, THEN conjunct1] .
  moreover have "length (bits_to_bytes [True, False, True]) = 1"
    using t[THEN conjunct2, THEN conjunct2, THEN conjunct2, THEN conjunct2, THEN conjunct1]
    by simp
  moreover have "bit (bits_to_bytes [True, False, True] ! 0) (7 - 2)"
    using t[THEN conjunct2, THEN conjunct2, THEN conjunct2, THEN conjunct2, THEN conjunct2,
            rule_format, OF b c]
    by simp
  ultimately show ?thesis by blast
qed

section \<open>Verification: capacity\<close>

text \<open>
  Claim C7. For an array of \<open>total_samples\<close> samples (one-dimensional, or \<open>n\<close> frames of
  \<open>c\<close> channels) the capacity in bytes is
  \<open>max(0, floor(total_samples * lsb_bits / 8) - 42)\<close>; for 100000 samples and one bit it is
  12458.
\<close>

theorem capacity_formula:
  "calculate_capacity \<lparr>shape = [n], elems = es\<rparr> lsb_bits
     = Inr (max 0 (int (n * lsb_bits div 8) - 42))
   \<and> calculate_capacity \<lparr>shape = [n, c], elems = es\<rparr> lsb_bits
     = Inr (max 0 (int (n * c * lsb_bits div 8) - 42))
   \<and> calculate_capacity \<lparr>shape = [100000], elems = es\<rparr> 1 = Inr 12458"
  by (simp add: calculate_capacity_def header_size_def)

section \<open>Verification: header codec\<close>

lemma length_be32: "length (be32 n) = 4"
  by (simp add: be32_def)

lemma unat_of_nat_byte: "unat (of_nat x :: byte) = x mod 256"
  by (simp add: unat_of_nat)

lemma int_from_bytes_big_be32:
  assumes "n < 2 ^ 32"
  shows "int_from_bytes_big (be32 n) = n"
proof -
  define q1 q2 q3 where "q1 = n div 256" and "q2 = q1 div 256" and "q3 = q2 div 256"
  have d8: "n div 2 ^ 8 = q1" by (simp add: q1_def)
  have d16: "n div 2 ^ 16 = q2"
    unfolding q2_def q1_def by (simp add: div_mult2_eq)
  have d24: "n div 2 ^ 24 = q3"
    unfolding q3_def q2_def q1_def by (simp add: div_mult2_eq)
  have "q3 < 256" using assms unfolding d24[symmetric] by simp
  then have m3: "q3 mod 256 = q3" by simp
  have "be32 n = [of_nat q3, of_nat q2, of_nat q1, of_nat n]"
    unfolding be32_def d8 d16 d24 ..
  then have "int_from_bytes_big (be32 n)
          = ((q3 mod 256 * 256 + q2 mod 256) * 256 + q1 mod 256) * 256 + n mod 256"
    by (simp add: int_from_bytes_big_def unat_of_nat_byte)
  also have "\<dots> = ((q3 * 256 + q2 mod 256) * 256 + q1 mod 256) * 256 + n mod 256"
    by (simp only: m3)
  also have "q3 * 256 + q2 mod 256 = q2" by (simp add: q3_def)
  also have "q2 * 256 + q1 mod 256 = q1" by (simp add: q2_def)
  also have "q1 * 256 + n mod 256 = n" by (simp add: q1_def)
  finally show ?thesis .
qed

lemma calculate_crc32_less: "calculate_crc32 data < 2 ^ 32"
  unfolding calculate_crc32_def using unsigned_less[of "zlib_crc32 data AND 0xffffffff"] by simp

lemma calculate_crc32_less_num: "calculate_crc32 data < 4294967296"
  using calculate_crc32_less[of data] by simp

lemma length_pack_s: "length (pack_s n bs) = n"
  by (simp add: pack_s_def)

lemma pack_s_exact: "length bs = n \<Longrightarrow> pack_s n bs = bs"
  by (simp add: pack_s_def)

lemma flags_small:
  assumes "(x::nat) < 4"
  shows "x AND 3 = x" "x AND 4 = 0" "(x OR 4) AND 3 = x" "(x OR 4) AND 4 = 4" "x OR 4 < 256"
proof -
  from assms consider "x = 0" | "x = 1" | "x = 2" | "x = 3" by linarith
  then show "x AND 3 = x" "x AND 4 = 0" "(x OR 4) AND 3 = x" "(x OR 4) AND 4 = 4" "x OR 4 < 256"
    by (cases; simp)+
qed

lemma and_3_mod: "(n::nat) AND 3 = n mod 4"
proof -
  have "n AND mask 2 = n mod 2 ^ 2"
    by (simp only: take_bit_eq_mask[symmetric] take_bit_eq_mod)
  then show ?thesis by (simp add: mask_eq_exp_minus_1)
qed

lemma flags_value:
  "(if sc then (lsb AND 3) OR 4 else lsb AND 3) = (lsb::nat) mod 4 + (if sc then 4 else 0)"
proof -
  have "lsb mod 4 < 4" by simp
  then consider "lsb mod 4 = 0" | "lsb mod 4 = 1" | "lsb mod 4 = 2" | "lsb mod 4 = 3"
    by linarith
  then show ?thesis by cases (simp_all add: and_3_mod)
qed

lemma struct_unpack_pack_header:
  assumes "length magic = 4" "ver < 256" "flags < 256" "pl < 2 ^ 32"
  shows "\<exists>hdr. struct_pack_header magic ver flags salt nonce pl = Inr hdr \<and> length hdr = 38
           \<and> hdr ! 5 = of_nat flags
           \<and> struct_unpack_header hdr
                = Inr (magic, ver, flags, pack_s 16 salt, pack_s 12 nonce, pl)"
proof -
  define hdr where "hdr = pack_s 4 magic @ [of_nat ver] @ [of_nat flags] @ pack_s 16 salt
                            @ pack_s 12 nonce @ be32 pl"
  have len: "length hdr = 38"
    by (simp add: hdr_def length_pack_s length_be32)
  have m: "pack_s 4 magic = magic" using assms(1) by (simp add: pack_s_exact)
  have t4: "take 4 hdr = magic"
    by (simp add: hdr_def m assms(1))
  have n4: "hdr ! 4 = of_nat ver" "hdr ! 5 = of_nat flags"
    by (simp_all add: hdr_def m nth_append assms(1))
  have d6: "drop 6 hdr = pack_s 16 salt @ pack_s 12 nonce @ be32 pl"
    by (simp add: hdr_def m assms(1))
  have d22: "drop 22 hdr = pack_s 12 nonce @ be32 pl"
    by (simp add: hdr_def m assms(1) length_pack_s)
  have d34: "drop 34 hdr = be32 pl"
    by (simp add: hdr_def m assms(1) length_pack_s)
  have "struct_pack_header magic ver flags salt nonce pl = Inr hdr"
    using assms by (simp add: struct_pack_header_def hdr_def)
  moreover have "struct_unpack_header hdr
      = Inr (magic, ver, flags, pack_s 16 salt, pack_s 12 nonce, pl)"
    using assms
    by (simp add: struct_unpack_header_def len t4 n4 d6 d22 d34 length_pack_s
          int_from_bytes_big_be32 unat_of_nat_byte)
  ultimately show ?thesis using len n4 by blast
qed

lemma parse_header_crc_ok:
  assumes "length hdr = 38"
  shows "parse_header (hdr @ be32 (calculate_crc32 hdr)) =
    (case struct_unpack_header hdr of
       Inl e \<Rightarrow> Inl (HeaderParsingFailed e)
     | Inr (magic, ver, flags, salt, nonce, payload_length) \<Rightarrow>
         if magic \<noteq> magic_bytes then Inl (ParseHeaderFailed InvalidMagicBytes)
         else if ver \<noteq> version then Inl (ParseHeaderFailed (UnsupportedVersion ver))
         else if flags AND 3 < 1 \<or> flags AND 3 > 3
              then Inl (ParseHeaderFailed (InvalidLsbBits (flags AND 3)))
              else Inr \<lparr>h_version = ver, h_lsb_bits = flags AND 3,
                        h_scatter = (flags AND 4 \<noteq> 0), h_salt = salt, h_nonce = nonce,
                        h_payload_length = payload_length\<rparr>)"
  using assms
  by (simp add: parse_header_def header_size_def length_be32 struct_unpack_I_def
        int_from_bytes_big_be32 calculate_crc32_less_num Let_def split: sum.split prod.split)

lemma parse_create_header:
  assumes "pl < 2 ^ 32"
  shows "\<exists>h. create_header salt nonce pl lsb sc = Inr h \<and> length h = 42
           \<and> drop 38 h = be32 (calculate_crc32 (take 38 h))
           \<and> h ! 5 = of_nat (lsb mod 4 + (if sc then 4 else 0))
           \<and> parse_header h =
               (if lsb mod 4 = 0 then Inl (ParseHeaderFailed (InvalidLsbBits 0))
                else Inr \<lparr>h_version = 1, h_lsb_bits = lsb mod 4, h_scatter = sc,
                          h_salt = pack_s 16 salt, h_nonce = pack_s 12 nonce,
                          h_payload_length = pl\<rparr>)"
proof -
  define flags where "flags = lsb mod 4 + (if sc then 4 else 0)"
  have fl: "flags < 256" "flags AND 3 = lsb mod 4" "flags AND 4 \<noteq> 0 \<longleftrightarrow> sc"
    using flags_small[of "lsb mod 4"] flags_value[of True lsb]
    by (auto simp: flags_def and_3_mod simp flip: flags_value)
  obtain hdr where hdr: "struct_pack_header magic_bytes version flags salt nonce pl = Inr hdr"
      "length hdr = 38" "hdr ! 5 = of_nat flags"
      "struct_unpack_header hdr
         = Inr (magic_bytes, version, flags, pack_s 16 salt, pack_s 12 nonce, pl)"
    using struct_unpack_pack_header[of magic_bytes version flags pl salt nonce] assms fl(1)
    by (auto simp: magic_bytes_def version_def)
  let ?h = "hdr @ be32 (calculate_crc32 hdr)"
  have "create_header salt nonce pl lsb sc = Inr ?h"
    using hdr(1)
    by (simp add: create_header_def Let_def flags_value flags_def struct_pack_I_def
          calculate_crc32_less_num)
  moreover have "length ?h = 42" by (simp add: hdr(2) length_be32)
  moreover have "drop 38 ?h = be32 (calculate_crc32 (take 38 ?h))" by (simp add: hdr(2))
  moreover have "?h ! 5 = of_nat (lsb mod 4 + (if sc then 4 else 0))"
    using hdr(2,3) by (simp add: nth_append flags_def)
  moreover have "parse_header ?h =
               (if lsb mod 4 = 0 then Inl (ParseHeaderFailed (InvalidLsbBits 0))
                else Inr \<lparr>h_version = 1, h_lsb_bits = lsb mod 4, h_scatter = sc,
                          h_salt = pack_s 16 salt, h_nonce = pack_s 12 nonce,
                          h_payload_length = pl\<rparr>)"
    using fl by (simp add: parse_header_crc_ok[OF hdr(2)] hdr(4) version_def)
  ultimately show ?thesis by blast
qed

lemma crc32_byte_unfold:
  "crc32_byte c b =
     crc32_step (crc32_step (crc32_step (crc32_step (crc32_step (crc32_step (crc32_step
       (crc32_step (c XOR ucast b))))))))"
  by (simp add: crc32_byte_def eval_nat_numeral)

lemmas crc32_eval = calculate_crc32_def zlib_crc32_def crc32_byte_unfold crc32_step_def

lemma parse_header_crc_mismatch:
  assumes "length hb = 42" "calculate_crc32 (take 38 hb) \<noteq> int_from_bytes_big (drop 38 hb)"
  shows "parse_header hb = Inl (ParseHeaderFailed HeaderCrcFailed)"
  using assms by (simp add: parse_header_def header_size_def struct_unpack_I_def Let_def)

lemma parse_header_42:
  assumes "length hb = 42" "calculate_crc32 (take 38 hb) = int_from_bytes_big (drop 38 hb)"
  shows "parse_header hb =
     (if take 4 hb \<noteq> magic_bytes then Inl (ParseHeaderFailed InvalidMagicBytes)
      else if unat (hb ! 4) \<noteq> version
      then Inl (ParseHeaderFailed (UnsupportedVersion (unat (hb ! 4))))
      else if unat (hb ! 5) AND 3 = 0
      then Inl (ParseHeaderFailed (InvalidLsbBits 0))
      else Inr \<lparr>h_version = unat (hb ! 4), h_lsb_bits = unat (hb ! 5) AND 3,
                h_scatter = (unat (hb ! 5) AND 4 \<noteq> 0), h_salt = take 16 (drop 6 hb),
                h_nonce = take 12 (drop 22 hb),
                h_payload_length = int_from_bytes_big (take 4 (drop 34 hb))\<rparr>)"
proof -
  have "unat (hb ! 5) AND 3 \<le> 3"
    by (simp add: and_3_mod)
  then show ?thesis
    using assms
    by (auto simp: parse_header_def header_size_def struct_unpack_I_def Let_def
          struct_unpack_header_def take_drop min_def)
qed

section \<open>Verification: extraction\<close>

lemma extract_bits_ok:
  "\<forall>k\<in>set idxs. k < length flat
     \<Longrightarrow> extract_bits err idxs flat = Inr (map (\<lambda>k. flat ! k AND 1 = 1) idxs)"
  by (induction idxs) simp_all

lemma extract_bits_fail:
  "\<exists>k\<in>set idxs. length flat \<le> k \<Longrightarrow> extract_bits err idxs flat = Inl err"
  by (induction idxs) (fastforce split: sum.splits)+

lemma map_nth_upt_take:
  "n \<le> length xs \<Longrightarrow> map (\<lambda>k. f (xs ! k)) [0..<n] = map f (take n xs)"
  by (rule nth_equalityI) simp_all

lemma extract_message_header:
  assumes "336 \<le> length (elems a)"
  shows "extract_message lib a =
     (case parse_header (bits_to_bytes (map (\<lambda>s. s AND 1 = 1) (take 336 (elems a)))) of
        Inl e \<Rightarrow> Inl (ExtractFailed e)
      | Inr header_info \<Rightarrow>
          (case (if h_scatter header_info
                 then (case generate_scatter_indices lib (h_payload_length header_info * 8)
                              (int (length (elems a)) - 336) (h_salt header_info) of
                         Inl e \<Rightarrow> Inl e
                       | Inr payload_indices \<Rightarrow>
                           extract_bits AudioTooShortForMessage
                             (map (\<lambda>idx. 336 + idx) payload_indices) (elems a))
                 else extract_bits AudioTooShortForMessage
                        (map (\<lambda>i. 336 + i) [0..<h_payload_length header_info * 8])
                        (elems a)) of
             Inl e \<Rightarrow> Inl (ExtractFailed e)
           | Inr payload_bits \<Rightarrow>
               Inr (bits_to_bytes payload_bits, h_salt header_info, h_nonce header_info)))"
proof -
  have "extract_bits AudioTooShortForHeader [0..<336] (elems a)
          = Inr (map (\<lambda>s. s AND 1 = 1) (take 336 (elems a)))"
    using assms map_nth_upt_take[of 336 "elems a" "\<lambda>s. s AND 1 = 1"]
    by (simp add: extract_bits_ok)
  then show ?thesis
    by (simp add: extract_message_def header_size_def Let_def split: sum.split)
qed

lemma extract_message_short:
  assumes "length (elems a) < 336"
  shows "extract_message lib a = Inl (ExtractFailed AudioTooShortForHeader)"
proof -
  have "\<exists>k\<in>set [0..<336]. length (elems a) \<le> k"
    using assms by (intro bexI[of _ "length (elems a)"]) simp_all
  then have "extract_bits AudioTooShortForHeader [0..<336] (elems a)
          = Inl AudioTooShortForHeader"
    by (rule extract_bits_fail)
  then show ?thesis
    by (simp add: extract_message_def header_size_def Let_def)
qed

section \<open>Verification: claims on the header codec\<close>

text \<open>
  Claim C9. For a 16-byte salt, a 12-byte nonce, a payload length below \<open>2^32\<close>,
  \<open>lsb_bits\<close> 1 or 2 and any scatter flag, \<open>_create_header\<close> returns 42 bytes whose last
  four are the big-endian CRC32 of the first 38, and \<open>_parse_header\<close> of them returns the
  same salt, nonce, payload length, \<open>lsb_bits\<close> and scatter flag.
\<close>

theorem header_codec_roundtrip:
  assumes "length salt = 16" and "length nonce = 12" and "payload_length < 2 ^ 32"
    and "lsb_bits = 1 \<or> lsb_bits = 2"
  shows "\<exists>h. create_header salt nonce payload_length lsb_bits scatter = Inr h
           \<and> length h = 42
           \<and> drop 38 h = be32 (calculate_crc32 (take 38 h))
           \<and> parse_header h =
               Inr \<lparr>h_version = 1, h_lsb_bits = lsb_bits, h_scatter = scatter,
                    h_salt = salt, h_nonce = nonce, h_payload_length = payload_length\<rparr>"
proof -
  from assms(4) have "lsb_bits mod 4 = lsb_bits" "lsb_bits mod 4 \<noteq> 0" by auto
  with parse_create_header[OF assms(3), of salt nonce lsb_bits scatter] assms(1,2)
  show ?thesis by (auto simp: pack_s_exact)
qed

theorem header_codec_roundtrip_witness:
  "\<exists>h. create_header (replicate 16 1) (replicate 12 2) 5 1 True = Inr h
         \<and> length h = 42
         \<and> drop 38 h = be32 (calculate_crc32 (take 38 h))
         \<and> parse_header h =
             Inr \<lparr>h_version = 1, h_lsb_bits = 1, h_scatter = True,
                  h_salt = replicate 16 1, h_nonce = replicate 12 2, h_payload_length = 5\<rparr>"
  using header_codec_roundtrip[of "replicate 16 1" "replicate 12 2" 5 1 True] by simp

text \<open>
  Claim C5. A 42-byte header whose last four bytes are not the CRC32 of its first 38 is
  rejected with the checksum error, whatever its magic, version and flags are; extraction of
  an array whose first 336 sample LSBs spell such a header fails with that error, for every
  scatter library and whatever the rest of the array holds, and so does the decoding worker
  for every crypto library and password, which it therefore never calls. When the CRC matches,
  a wrong magic and then a wrong version are rejected.
\<close>

theorem header_validation_order:
  "(length hb = 42 \<and> calculate_crc32 (take 38 hb) \<noteq> int_from_bytes_big (drop 38 hb)
      \<longrightarrow> parse_header hb = Inl (ParseHeaderFailed HeaderCrcFailed))
   \<and> (336 \<le> length (elems a)
        \<and> (let rb = bits_to_bytes (map (\<lambda>s. s AND 1 = 1) (take 336 (elems a)))
           in calculate_crc32 (take 38 rb) \<noteq> int_from_bytes_big (drop 38 rb))
      \<longrightarrow> extract_message lib a = Inl (ExtractFailed (ParseHeaderFailed HeaderCrcFailed))
          \<and> decode_worker clib lib a password
                = Inl (ExtractFailed (ParseHeaderFailed HeaderCrcFailed)))
   \<and> (length hb = 42 \<and> calculate_crc32 (take 38 hb) = int_from_bytes_big (drop 38 hb)
        \<and> take 4 hb \<noteq> magic_bytes
      \<longrightarrow> parse_header hb = Inl (ParseHeaderFailed InvalidMagicBytes))
   \<and> (length hb = 42 \<and> calculate_crc32 (take 38 hb) = int_from_bytes_big (drop 38 hb)
        \<and> take 4 hb = magic_bytes \<and> unat (hb ! 4) \<noteq> version
      \<longrightarrow> parse_header hb = Inl (ParseHeaderFailed (UnsupportedVersion (unat (hb ! 4)))))"
proof (intro conjI impI)
  assume "length hb = 42 \<and> calculate_crc32 (take 38 hb) \<noteq> int_from_bytes_big (drop 38 hb)"
  then show "parse_header hb = Inl (ParseHeaderFailed HeaderCrcFailed)"
    by (simp add: parse_header_crc_mismatch)
next
  assume h: "336 \<le> length (elems a)
        \<and> (let rb = bits_to_bytes (map (\<lambda>s. s AND 1 = 1) (take 336 (elems a)))
           in calculate_crc32 (take 38 rb) \<noteq> int_from_bytes_big (drop 38 rb))"
  define rb where "rb = bits_to_bytes (map (\<lambda>s. s AND 1 = 1) (take 336 (elems a)))"
  have "length rb = 42"
    using h by (simp add: rb_def length_bits_to_bytes)
  moreover have "calculate_crc32 (take 38 rb) \<noteq> int_from_bytes_big (drop 38 rb)"
    using h by (simp add: rb_def Let_def)
  ultimately have "parse_header rb = Inl (ParseHeaderFailed HeaderCrcFailed)"
    by (rule parse_header_crc_mismatch)
  then show e: "extract_message lib a = Inl (ExtractFailed (ParseHeaderFailed HeaderCrcFailed))"
    using h by (simp add: extract_message_header rb_def)
  then show "decode_worker clib lib a password
                = Inl (ExtractFailed (ParseHeaderFailed HeaderCrcFailed))"
    by (simp add: decode_worker_def)
next
  assume "length hb = 42 \<and> calculate_crc32 (take 38 hb) = int_from_bytes_big (drop 38 hb)
        \<and> take 4 hb \<noteq> magic_bytes"
  then show "parse_header hb = Inl (ParseHeaderFailed InvalidMagicBytes)"
    by (simp add: parse_header_42)
next
  assume "length hb = 42 \<and> calculate_crc32 (take 38 hb) = int_from_bytes_big (drop 38 hb)
        \<and> take 4 hb = magic_bytes \<and> unat (hb ! 4) \<noteq> version"
  then show "parse_header hb = Inl (ParseHeaderFailed (UnsupportedVersion (unat (hb ! 4))))"
    by (simp add: parse_header_42)
qed

lemma lsb_of_bool: "(\<lambda>s :: sample. s AND 1 = 1) \<circ> of_bool = id"
  by (rule ext) (simp add: and_one_eq)

lemma header_bytes_of_embedded:
  "length hb = 42 \<Longrightarrow>
     bits_to_bytes (map (\<lambda>s. s AND 1 = 1) (take 336 (map of_bool (bytes_to_bits hb) :: sample list)))
       = hb"
  by (simp add: lsb_of_bool length_bytes_to_bits bits_to_bytes_bytes_to_bits)

theorem header_validation_order_witness:
  "parse_header
     [65, 83, 84, 71, 1, 3,
      0, 0, 0, 0, 0, 0, 0, 0, 0, 0, 0, 0, 0, 0, 0, 0, 0, 0, 0, 0, 0, 0, 0, 0, 0, 0, 0, 0, 0, 0, 0, 0,
      183, 70, 147, 131] = Inl (ParseHeaderFailed HeaderCrcFailed)
   \<and> (\<forall>lib. extract_message lib
          \<lparr>shape = [336], elems = map of_bool (bytes_to_bits
     [65, 83, 84, 71, 1, 3,
      0, 0, 0, 0, 0, 0, 0, 0, 0, 0, 0, 0, 0, 0, 0, 0, 0, 0, 0, 0, 0, 0, 0, 0, 0, 0, 0, 0, 0, 0, 0, 0,
      183, 70, 147, 131])\<rparr> = Inl (ExtractFailed (ParseHeaderFailed HeaderCrcFailed)))
   \<and> (\<forall>(clib :: string cryptolib) lib password. decode_worker clib lib
          \<lparr>shape = [336], elems = map of_bool (bytes_to_bits
     [65, 83, 84, 71, 1, 3,
      0, 0, 0, 0, 0, 0, 0, 0, 0, 0, 0, 0, 0, 0, 0, 0, 0, 0, 0, 0, 0, 0, 0, 0, 0, 0, 0, 0, 0, 0, 0, 0,
      183, 70, 147, 131])\<rparr> password = Inl (ExtractFailed (ParseHeaderFailed HeaderCrcFailed)))
   \<and> parse_header
     [88, 83, 84, 71, 1, 1,
      0, 0, 0, 0, 0, 0, 0, 0, 0, 0, 0, 0, 0, 0, 0, 0, 0, 0, 0, 0, 0, 0, 0, 0, 0, 0, 0, 0, 0, 0, 0, 0,
      85, 248, 70, 125] = Inl (ParseHeaderFailed InvalidMagicBytes)
   \<and> parse_header
     [65, 83, 84, 71, 2, 1,
      0, 0, 0, 0, 0, 0, 0, 0, 0, 0, 0, 0, 0, 0, 0, 0, 0, 0, 0, 0, 0, 0, 0, 0, 0, 0, 0, 0, 0, 0, 0, 0,
      183, 37, 65, 62] = Inl (ParseHeaderFailed (UnsupportedVersion 2))"
proof -
  let ?hb1 = "[65, 83, 84, 71, 1, 3,
      0, 0, 0, 0, 0, 0, 0, 0, 0, 0, 0, 0, 0, 0, 0, 0, 0, 0, 0, 0, 0, 0, 0, 0, 0, 0, 0, 0, 0, 0, 0, 0,
      183, 70, 147, 131] :: byte list"
  let ?hb2 = "[88, 83, 84, 71, 1, 1,
      0, 0, 0, 0, 0, 0, 0, 0, 0, 0, 0, 0, 0, 0, 0, 0, 0, 0, 0, 0, 0, 0, 0, 0, 0, 0, 0, 0, 0, 0, 0, 0,
      85, 248, 70, 125] :: byte list"
  let ?hb3 = "[65, 83, 84, 71, 2, 1,
      0, 0, 0, 0, 0, 0, 0, 0, 0, 0, 0, 0, 0, 0, 0, 0, 0, 0, 0, 0, 0, 0, 0, 0, 0, 0, 0, 0, 0, 0, 0, 0,
      183, 37, 65, 62] :: byte list"
  let ?a = "\<lparr>shape = [336], elems = map of_bool (bytes_to_bits ?hb1)\<rparr>"
  have len1: "length ?hb1 = 42" by simp
  have crc1: "calculate_crc32 (take 38 ?hb1) \<noteq> int_from_bytes_big (drop 38 ?hb1)"
    by (simp add: crc32_eval int_from_bytes_big_def)
  have crc2: "calculate_crc32 (take 38 ?hb2) = int_from_bytes_big (drop 38 ?hb2)"
    by (simp add: crc32_eval int_from_bytes_big_def)
  have crc3: "calculate_crc32 (take 38 ?hb3) = int_from_bytes_big (drop 38 ?hb3)"
    by (simp add: crc32_eval int_from_bytes_big_def)
  have p1: "length ?hb1 = 42
      \<and> calculate_crc32 (take 38 ?hb1) \<noteq> int_from_bytes_big (drop 38 ?hb1)"
    using len1 crc1 by (rule conjI)
  have rb: "bits_to_bytes (map (\<lambda>s. s AND 1 = 1) (take 336 (elems ?a))) = ?hb1"
    using header_bytes_of_embedded[OF len1] by (simp only: ndarray.simps)
  have la: "336 \<le> length (elems ?a)"
    by (simp only: ndarray.simps length_map length_bytes_to_bits len1)
  have pa: "336 \<le> length (elems ?a)
        \<and> (let rb = bits_to_bytes (map (\<lambda>s. s AND 1 = 1) (take 336 (elems ?a)))
           in calculate_crc32 (take 38 rb) \<noteq> int_from_bytes_big (drop 38 rb))"
    unfolding Let_def rb using la crc1 by (rule conjI)
  have p2: "length ?hb2 = 42
      \<and> calculate_crc32 (take 38 ?hb2) = int_from_bytes_big (drop 38 ?hb2)
      \<and> take 4 ?hb2 \<noteq> magic_bytes"
    using crc2 by (intro conjI) (simp_all add: magic_bytes_def)
  have p3: "length ?hb3 = 42
      \<and> calculate_crc32 (take 38 ?hb3) = int_from_bytes_big (drop 38 ?hb3)
      \<and> take 4 ?hb3 = magic_bytes \<and> unat (?hb3 ! 4) \<noteq> version"
    using crc3 by (intro conjI) (simp_all add: magic_bytes_def version_def)
  have "parse_header ?hb1 = Inl (ParseHeaderFailed HeaderCrcFailed)"
    using header_validation_order[of ?hb1, THEN conjunct1, rule_format, OF p1] .
  moreover have "extract_message lib ?a = Inl (ExtractFailed (ParseHeaderFailed HeaderCrcFailed))"
    for lib
    using header_validation_order[of _ ?a lib, THEN conjunct2, THEN conjunct1, rule_format,
            OF pa, THEN conjunct1] .
  moreover have "decode_worker clib lib ?a password
           = Inl (ExtractFailed (ParseHeaderFailed HeaderCrcFailed))"
    for clib :: "string cryptolib" and lib password
    using header_validation_order[of _ ?a lib clib password, THEN conjunct2, THEN conjunct1,
            rule_format, OF pa, THEN conjunct2] .
  moreover have "parse_header ?hb2 = Inl (ParseHeaderFailed InvalidMagicBytes)"
    using header_validation_order[of ?hb2, THEN conjunct2, THEN conjunct2, THEN conjunct1,
            rule_format, OF p2] .
  moreover have "parse_header ?hb3 = Inl (ParseHeaderFailed (UnsupportedVersion 2))"
    using header_validation_order[of ?hb3, THEN conjunct2, THEN conjunct2, THEN conjunct2,
            rule_format, OF p3] by simp
  ultimately show ?thesis by blast
qed

text \<open>
  Claim C3 asks that an LSB count of 0 or more than 2 in the flags byte is rejected. The
  header below has a valid CRC, magic and version and the flags byte 3; \<open>_parse_header\<close>
  accepts it with \<open>lsb_bits = 3\<close>, because its test is \<open>lsb_bits < 1 or lsb_bits > 3\<close>.
  (\<open>parse_header_42\<close> shows that 0 is rejected and 1 and 2 are accepted.)
\<close>

theorem parse_header_accepts_three_lsb_bits:
  "parse_header
     [0x41, 0x53, 0x54, 0x47, 1, 3, 0, 0, 0, 0, 0, 0, 0, 0, 0, 0, 0, 0, 0, 0, 0, 0,
      0, 0, 0, 0, 0, 0, 0, 0, 0, 0, 0, 0, 0, 0, 0, 0, 183, 70, 147, 130]
   = Inr \<lparr>h_version = 1, h_lsb_bits = 3, h_scatter = False,
          h_salt = [0, 0, 0, 0, 0, 0, 0, 0, 0, 0, 0, 0, 0, 0, 0, 0],
          h_nonce = [0, 0, 0, 0, 0, 0, 0, 0, 0, 0, 0, 0], h_payload_length = 0\<rparr>"
  by (simp add: parse_header_42 crc32_eval int_from_bytes_big_def magic_bytes_def version_def)

section \<open>Verification: embedding and extraction\<close>

lemma write_sample_mask:
  "write_sample lsb_bits b smp = (if b then (smp AND NOT (mask lsb_bits)) OR 1 else smp AND NOT (mask lsb_bits))"
  by (simp add: write_sample_def Let_def mask_eq_exp_minus_1)

lemma bit_write_sample:
  "bit (write_sample lsb_bits b smp) n \<longleftrightarrow> (n = 0 \<and> b) \<or> (lsb_bits \<le> n \<and> bit smp n)"
  using bit_imp_le_length[of smp n]
  by (auto simp: write_sample_mask bit_simps)

lemma lsb_write_sample: "1 \<le> lsb_bits \<Longrightarrow> (write_sample lsb_bits b smp AND 1 = 1) = b"
proof -
  assume "1 \<le> lsb_bits"
  then have "bit (write_sample lsb_bits b smp) 0 = b" by (simp add: bit_write_sample)
  then show ?thesis by (auto simp: and_one_eq bit_0 mod2_eq_if)
qed

lemma length_write_all: "length (write_all lsb ps flat) = length flat"
  by (induction ps arbitrary: flat) auto

lemma write_all_untouched:
  "k \<notin> fst ` set ps \<Longrightarrow> write_all lsb ps flat ! k = flat ! k"
  by (induction ps arbitrary: flat) auto

lemma write_all_written:
  "distinct (map fst ps) \<Longrightarrow> (k, b) \<in> set ps \<Longrightarrow> k < length flat
     \<Longrightarrow> write_all lsb ps flat ! k = write_sample lsb b (flat ! k)"
proof (induction ps arbitrary: flat)
  case Nil
  then show ?case by simp
next
  case (Cons p ps)
  obtain k' b' where p: "p = (k', b')" by (cases p)
  show ?case
  proof (cases "(k, b) = p")
    case True
    with Cons.prems p have "k \<notin> fst ` set ps" by auto
    with True[symmetric] Cons.prems show ?thesis
      by (simp add: write_all_untouched)
  next
    case False
    with Cons.prems p have in_ps: "(k, b) \<in> set ps" and ne: "k' \<noteq> k"
      by (auto simp: image_iff)
    from Cons.prems have "distinct (map fst ps)" by simp
    from Cons.IH[OF this in_ps, of "flat[k' := write_sample lsb b' (flat ! k')]"] Cons.prems(3) ne
    show ?thesis by (simp add: p)
  qed
qed

lemma write_all_high_bits:
  "k < length flat \<Longrightarrow> lsb \<le> n \<Longrightarrow> 1 \<le> n
     \<Longrightarrow> bit (write_all lsb ps flat ! k) n = bit (flat ! k) n"
proof (induction ps arbitrary: flat)
  case Nil
  then show ?case by simp
next
  case (Cons p ps)
  obtain k' b' where p: "p = (k', b')" by (cases p)
  let ?fl = "flat[k' := write_sample lsb b' (flat ! k')]"
  have "bit (write_all lsb ps ?fl ! k) n = bit (?fl ! k) n"
    using Cons.prems by (intro Cons.IH) simp_all
  also have "\<dots> = bit (flat ! k) n"
    using Cons.prems by (cases "k = k'") (simp_all add: bit_write_sample)
  finally show ?case by (simp add: p)
qed

lemma embed_bits_zip:
  assumes "length idxs = length bits"
    and "\<forall>j<length bits. sample_idx (n + j) = Inr (idxs ! j)"
    and "\<forall>k\<in>set idxs. k < length flat"
  shows "embed_bits lsb sample_idx (enumerate n bits) flat
           = Inr (write_all lsb (zip idxs bits) flat)"
  using assms
proof (induction bits arbitrary: idxs n flat)
  case Nil
  then show ?case by simp
next
  case (Cons b bits)
  then obtain k ks where idxs: "idxs = k # ks" by (cases idxs) auto
  from Cons.prems(2) idxs have f0: "sample_idx n = Inr k" by force
  have "length ks = length bits" using Cons.prems(1) idxs by simp
  moreover have "\<forall>j<length bits. sample_idx (Suc n + j) = Inr (ks ! j)"
  proof (intro allI impI)
    fix j assume "j < length bits"
    then have "sample_idx (n + Suc j) = Inr (idxs ! Suc j)"
      using Cons.prems(2) by (metis Suc_less_eq length_Cons)
    then show "sample_idx (Suc n + j) = Inr (ks ! j)" by (simp add: idxs)
  qed
  moreover have "\<forall>k'\<in>set ks. k' < length (flat[k := write_sample lsb b (flat ! k)])"
    using Cons.prems(3) idxs by simp
  ultimately have "embed_bits lsb sample_idx (enumerate (Suc n) bits)
                     (flat[k := write_sample lsb b (flat ! k)])
                   = Inr (write_all lsb (zip ks bits) (flat[k := write_sample lsb b (flat ! k)]))"
    by (rule Cons.IH)
  moreover have "k < length flat" using Cons.prems(3) idxs by simp
  ultimately show ?case by (simp add: idxs f0)
qed

lemma embed_bits_length:
  "embed_bits lsb sample_idx ps flat = Inr flat' \<Longrightarrow> length flat' = length flat"
  by (induction lsb sample_idx ps flat rule: embed_bits.induct)
     (auto split: sum.splits if_splits)

lemma embed_bits_index_error:
  assumes "\<forall>(i, b)\<in>set ps. \<exists>k. sample_idx i = Inr k"
    and "\<exists>(i, b)\<in>set ps. \<exists>k. sample_idx i = Inr k \<and> length flat \<le> k"
  shows "embed_bits lsb sample_idx ps flat = Inl IndexError"
  using assms
proof (induction lsb sample_idx ps flat rule: embed_bits.induct)
  case (1 lsb_bits sample_idx flat_audio)
  then show ?case by simp
next
  case (2 lsb_bits sample_idx i b rest flat_audio)
  from "2.prems"(1) obtain k where k: "sample_idx i = Inr k" by auto
  show ?case
  proof (cases "k < length flat_audio")
    case False
    with k show ?thesis by simp
  next
    case True
    with k "2.prems"(2) have "\<exists>(i, b)\<in>set rest. \<exists>k. sample_idx i = Inr k
        \<and> length (flat_audio[k := write_sample lsb_bits b (flat_audio ! k)]) \<le> k"
      by fastforce
    hence "\<exists>(i, b')\<in>set rest. \<exists>k'. sample_idx i = Inr k'
        \<and> length (flat_audio[k := write_sample lsb_bits b (flat_audio ! k)]) \<le> k'"
      by simp
    moreover have "\<forall>(i, b)\<in>set rest. \<exists>k. sample_idx i = Inr k"
      using "2.prems"(1) by auto
    ultimately have "embed_bits lsb_bits sample_idx rest
        (flat_audio[k := write_sample lsb_bits b (flat_audio ! k)]) = Inl IndexError"
      using "2.IH"[OF k True] by blast
    with k True show ?thesis by simp
  qed
qed

lemma bytes_to_bits_append: "bytes_to_bits (xs @ ys) = bytes_to_bits xs @ bytes_to_bits ys"
  by (induction xs) simp_all

lemma scatter_indices_ok:
  assumes "shuffle_permutes lib" and "int cnt \<le> tot"
  shows "\<exists>idxs. generate_scatter_indices lib cnt tot salt = Inr idxs \<and> length idxs = cnt
           \<and> distinct idxs \<and> set idxs \<subseteq> {0..<nat tot}"
proof -
  define seed where "seed = int_from_bytes_big (take 4 (sha256_digest lib (salt @ scatter_tag)))"
  define sh where "sh = random_shuffle lib seed [0..<nat tot]"
  have m: "mset sh = mset [0..<nat tot]"
    using assms(1) by (simp add: shuffle_permutes_def sh_def)
  have len: "length sh = nat tot"
    using mset_eq_length[OF m] by simp
  have dist: "distinct sh"
    using mset_eq_imp_distinct_iff[OF m] by simp
  have st: "set sh = {0..<nat tot}"
    using mset_eq_setD[OF m] by simp
  have "generate_scatter_indices lib cnt tot salt = Inr (take cnt sh)"
    using assms(2) by (simp add: generate_scatter_indices_def Let_def sh_def seed_def)
  moreover have "length (take cnt sh) = cnt" using len assms(2) by simp
  moreover have "distinct (take cnt sh)" using dist by (rule distinct_take)
  moreover have "set (take cnt sh) \<subseteq> {0..<nat tot}"
    using set_take_subset[of cnt sh] st by simp
  ultimately show ?thesis by blast
qed

lemma scatter_indices_fail:
  "tot < int cnt \<Longrightarrow>
     generate_scatter_indices lib cnt tot salt = Inl (ScatterFailed NotEnoughSamples)"
  by (simp add: generate_scatter_indices_def Let_def)

lemma embed_message_unfold:
  assumes "create_header salt nonce (length C) lsb sc = Inr h" and "length h = 42"
  shows "embed_message lib a C salt nonce lsb sc =
     (if length (elems a) * lsb < (42 + length C) * 8
      then Inl (EmbedFailed (InsufficientCapacity ((42 + length C) * 8) (length (elems a) * lsb)))
      else
        case embed_bits lsb Inr (enumerate 0 (bytes_to_bits h)) (elems a) of
          Inl e \<Rightarrow> Inl (EmbedFailed e)
        | Inr fl \<Rightarrow>
            (case (if sc then generate_scatter_indices lib (8 * length C)
                               (int (length (elems a)) - 336) salt
                   else Inr []) of
               Inl e \<Rightarrow> Inl (EmbedFailed e)
             | Inr payload_indices \<Rightarrow>
                 (case embed_bits lsb
                         (\<lambda>i. if sc
                              then (case list_index payload_indices i of
                                      Inl e \<Rightarrow> Inl e
                                    | Inr idx \<Rightarrow> Inr (336 + idx))
                              else Inr (336 + i))
                         (enumerate 0 (bytes_to_bits C)) fl of
                    Inl e \<Rightarrow> Inl (EmbedFailed e)
                  | Inr fl2 \<Rightarrow> Inr (a\<lparr>elems := fl2\<rparr>))))"
proof -
  have "take 336 (bytes_to_bits (h @ C)) = bytes_to_bits h"
    "drop 336 (bytes_to_bits (h @ C)) = bytes_to_bits C"
    using assms(2) by (simp_all add: bytes_to_bits_append length_bytes_to_bits)
  then show ?thesis
    using assms
    by (simp add: embed_message_def Let_def header_size_def length_bytes_to_bits mult.commute
           cong: sum.case_cong)
qed

lemma embed_header_phase:
  assumes "length hbits \<le> length flat"
  shows "embed_bits lsb Inr (enumerate 0 hbits) flat
           = Inr (write_all lsb (zip [0..<length hbits] hbits) flat)"
  using assms by (intro embed_bits_zip) simp_all

lemma embed_header_phase_fail:
  assumes "length flat < length hbits"
  shows "embed_bits lsb Inr (enumerate 0 hbits) flat = Inl IndexError"
proof (rule embed_bits_index_error)
  show "\<forall>(i, b)\<in>set (enumerate 0 hbits). \<exists>k. Inr i = (Inr k :: error + nat)" by auto
  have "(length flat, hbits ! length flat) \<in> set (enumerate 0 hbits)"
    using assms by (simp add: in_set_enumerate_eq)
  then show "\<exists>(i, b)\<in>set (enumerate 0 hbits). \<exists>k. Inr i = (Inr k :: error + nat) \<and> length flat \<le> k"
    by force
qed

lemma embed_payload_sequential:
  assumes "336 + length pbits \<le> length flat"
  shows "embed_bits lsb (\<lambda>i. Inr (336 + i)) (enumerate 0 pbits) flat
           = Inr (write_all lsb (zip (map ((+) 336) [0..<length pbits]) pbits) flat)"
  using assms by (intro embed_bits_zip) auto

lemma embed_payload_sequential_fail:
  assumes "length flat < 336 + length pbits" and "336 \<le> length flat"
  shows "embed_bits lsb (\<lambda>i. Inr (336 + i)) (enumerate 0 pbits) flat = Inl IndexError"
proof (rule embed_bits_index_error)
  show "\<forall>(i, b)\<in>set (enumerate 0 pbits). \<exists>k. Inr (336 + i) = (Inr k :: error + nat)" by auto
  define j where "j = length flat - 336"
  have "(j, pbits ! j) \<in> set (enumerate 0 pbits)"
    using assms by (simp add: in_set_enumerate_eq j_def)
  moreover have "length flat \<le> 336 + j" using assms by (simp add: j_def)
  ultimately show "\<exists>(i, b)\<in>set (enumerate 0 pbits).
      \<exists>k. Inr (336 + i) = (Inr k :: error + nat) \<and> length flat \<le> k"
    by force
qed

lemma embed_payload_scatter:
  assumes "length idxs = length pbits" and "\<forall>k\<in>set idxs. 336 + k < length flat"
  shows "embed_bits lsb
           (\<lambda>i. case list_index idxs i of Inl e \<Rightarrow> Inl e | Inr idx \<Rightarrow> Inr (336 + idx))
           (enumerate 0 pbits) flat
           = Inr (write_all lsb (zip (map ((+) 336) idxs) pbits) flat)"
  using assms by (intro embed_bits_zip) (auto simp: list_index_def)

lemma embed_message_capacity_error:
  assumes "create_header salt nonce (length C) lsb sc = Inr h" and "length h = 42"
    and "length (elems a) * lsb < (42 + length C) * 8"
  shows "embed_message lib a C salt nonce lsb sc
           = Inl (EmbedFailed (InsufficientCapacity ((42 + length C) * 8)
                                 (length (elems a) * lsb)))"
  using assms(3) by (simp add: embed_message_unfold[OF assms(1,2)])

lemma embed_message_header_overrun:
  assumes "create_header salt nonce (length C) lsb sc = Inr h" and "length h = 42"
    and "(42 + length C) * 8 \<le> length (elems a) * lsb"
    and "length (elems a) < 336"
  shows "embed_message lib a C salt nonce lsb sc = Inl (EmbedFailed IndexError)"
proof -
  have "embed_bits lsb Inr (enumerate 0 (bytes_to_bits h)) (elems a) = Inl IndexError"
    using assms(2,4) by (intro embed_header_phase_fail) (simp add: length_bytes_to_bits)
  then show ?thesis
    using assms(3) by (simp add: embed_message_unfold[OF assms(1,2)])
qed

lemma embed_message_payload_overrun:
  assumes "create_header salt nonce (length C) lsb sc = Inr h" and "length h = 42"
    and "(42 + length C) * 8 \<le> length (elems a) * lsb"
    and "336 \<le> length (elems a)"
    and "length (elems a) < (42 + length C) * 8"
  shows "embed_message lib a C salt nonce lsb sc
           = Inl (EmbedFailed (if sc then ScatterFailed NotEnoughSamples else IndexError))"
proof -
  let ?fl = "write_all lsb (zip [0..<length (bytes_to_bits h)] (bytes_to_bits h)) (elems a)"
  have h1: "embed_bits lsb Inr (enumerate 0 (bytes_to_bits h)) (elems a) = Inr ?fl"
    using assms(2,4) by (intro embed_header_phase) (simp add: length_bytes_to_bits)
  show ?thesis
  proof (cases sc)
    case True
    have "int (length (elems a)) - 336 < int (8 * length C)"
      using assms(5) by simp
    then have "generate_scatter_indices lib (8 * length C) (int (length (elems a)) - 336) salt
                 = Inl (ScatterFailed NotEnoughSamples)"
      by (rule scatter_indices_fail)
    with True h1 assms(3) show ?thesis
      unfolding embed_message_unfold[OF assms(1,2)] by simp
  next
    case False
    have "embed_bits lsb (\<lambda>i. Inr (336 + i)) (enumerate 0 (bytes_to_bits C)) ?fl
            = Inl IndexError"
      using assms(4,5)
      by (intro embed_payload_sequential_fail) (simp_all add: length_write_all length_bytes_to_bits)
    with False h1 assms(3) show ?thesis
      unfolding embed_message_unfold[OF assms(1,2)] by simp
  qed
qed

lemma embed_message_result:
  assumes "create_header salt nonce (length C) lsb sc = Inr h" and "length h = 42"
    and "(42 + length C) * 8 \<le> length (elems a)" and "1 \<le> lsb"
    and "if sc then generate_scatter_indices lib (8 * length C)
                      (int (length (elems a)) - 336) salt = Inr idxs
                    \<and> length idxs = 8 * length C
                    \<and> (\<forall>k\<in>set idxs. 336 + k < length (elems a))
         else idxs = [0..<8 * length C]"
  shows "embed_message lib a C salt nonce lsb sc
           = Inr (a\<lparr>elems := write_all lsb (zip (map ((+) 336) idxs) (bytes_to_bits C))
                               (write_all lsb (zip [0..<336] (bytes_to_bits h)) (elems a))\<rparr>)"
proof -
  let ?fl = "write_all lsb (zip [0..<336] (bytes_to_bits h)) (elems a)"
  have lh: "length (bytes_to_bits h) = 336"
    using assms(2) by (simp add: length_bytes_to_bits)
  have "embed_bits lsb Inr (enumerate 0 (bytes_to_bits h)) (elems a)
          = Inr (write_all lsb (zip [0..<length (bytes_to_bits h)] (bytes_to_bits h)) (elems a))"
    using assms(3) lh by (intro embed_header_phase) simp
  then have h1: "embed_bits lsb Inr (enumerate 0 (bytes_to_bits h)) (elems a) = Inr ?fl"
    by (simp only: lh)
  have cap: "\<not> length (elems a) * lsb < (42 + length C) * 8"
  proof -
    from assms(4) obtain m where "lsb = Suc m" by (cases lsb) simp_all
    with assms(3) show ?thesis by simp
  qed
  show ?thesis
  proof (cases sc)
    case True
    with assms(5) have g: "generate_scatter_indices lib (8 * length C)
                      (int (length (elems a)) - 336) salt = Inr idxs"
      and li: "length idxs = 8 * length C"
      and bi: "\<forall>k\<in>set idxs. 336 + k < length (elems a)"
      by simp_all
    have "embed_bits lsb
           (\<lambda>i. case list_index idxs i of Inl e \<Rightarrow> Inl e | Inr idx \<Rightarrow> Inr (336 + idx))
           (enumerate 0 (bytes_to_bits C)) ?fl
           = Inr (write_all lsb (zip (map ((+) 336) idxs) (bytes_to_bits C)) ?fl)"
      using li bi by (intro embed_payload_scatter) (simp_all add: length_bytes_to_bits length_write_all)
    with True h1 g cap show ?thesis
      unfolding embed_message_unfold[OF assms(1,2)] by simp
  next
    case False
    with assms(5) have idxs: "idxs = [0..<8 * length C]" by simp
    have "embed_bits lsb (\<lambda>i. Inr (336 + i)) (enumerate 0 (bytes_to_bits C)) ?fl
           = Inr (write_all lsb (zip (map ((+) 336) [0..<length (bytes_to_bits C)])
                    (bytes_to_bits C)) ?fl)"
      using assms(3) by (intro embed_payload_sequential) (simp add: length_bytes_to_bits length_write_all)
    with False h1 cap show ?thesis
      unfolding embed_message_unfold[OF assms(1,2)] by (simp add: idxs length_bytes_to_bits)
  qed
qed

lemma read_back:
  assumes "distinct idxs" and "length idxs = length bits"
    and "\<forall>k\<in>set idxs. k < length flat" and "1 \<le> lsb"
  shows "map (\<lambda>k. write_all lsb (zip idxs bits) flat ! k AND 1 = 1) idxs = bits"
proof (rule nth_equalityI)
  show "length (map (\<lambda>k. write_all lsb (zip idxs bits) flat ! k AND 1 = 1) idxs) = length bits"
    using assms(2) by simp
next
  fix j assume "j < length (map (\<lambda>k. write_all lsb (zip idxs bits) flat ! k AND 1 = 1) idxs)"
  then have j: "j < length idxs" by simp
  have m: "(idxs ! j, bits ! j) \<in> set (zip idxs bits)"
    using j assms(2) by (metis in_set_zip fst_conv snd_conv)
  have d: "distinct (map fst (zip idxs bits))"
    using assms(1,2) by (simp add: map_fst_zip)
  have l: "idxs ! j < length flat" using assms(3) j by simp
  have "write_all lsb (zip idxs bits) flat ! (idxs ! j)
                     = write_sample lsb (bits ! j) (flat ! (idxs ! j))"
    using d m l by (rule write_all_written)
  then show "map (\<lambda>k. write_all lsb (zip idxs bits) flat ! k AND 1 = 1) idxs ! j = bits ! j"
    using j assms(4) by (simp add: lsb_write_sample)
qed

lemma extract_message_parsed:
  assumes "336 \<le> length fl"
    and "parse_header (bits_to_bytes (map (\<lambda>s. s AND 1 = 1) (take 336 fl)))
           = Inr \<lparr>h_version = v, h_lsb_bits = l, h_scatter = sc,
                    h_salt = salt, h_nonce = nonce, h_payload_length = n\<rparr>"
    and "if sc then generate_scatter_indices lib (n * 8) (int (length fl) - 336) salt = Inr idxs
         else idxs = [0..<n * 8]"
    and "extract_bits AudioTooShortForMessage (map ((+) 336) idxs) fl = Inr pbits"
  shows "extract_message lib (a\<lparr>elems := fl\<rparr>) = Inr (bits_to_bytes pbits, salt, nonce)"
proof -
  have ge: "336 \<le> length (elems (a\<lparr>elems := fl\<rparr>))" using assms(1) by simp
  show ?thesis
  proof (cases sc)
    case True
    with assms(3) have "generate_scatter_indices lib (n * 8) (int (length fl) - 336) salt
                          = Inr idxs" by simp
    with True assms(2,4) show ?thesis
      unfolding extract_message_header[OF ge] by simp
  next
    case False
    with assms(3,4) have "extract_bits AudioTooShortForMessage (map ((+) 336) [0..<n * 8]) fl
                            = Inr pbits" by simp
    with False assms(2) show ?thesis
      unfolding extract_message_header[OF ge] by simp
  qed
qed

lemma extract_embedded:
  assumes ph: "parse_header h = Inr \<lparr>h_version = v, h_lsb_bits = l, h_scatter = sc,
                    h_salt = salt, h_nonce = nonce, h_payload_length = length C\<rparr>"
    and lh: "length h = 42" and lsb: "1 \<le> lsb"
    and fits: "(42 + length C) * 8 \<le> length (elems a)"
    and idx: "if sc then generate_scatter_indices lib (8 * length C)
                      (int (length (elems a)) - 336) salt = Inr idxs
                    \<and> length idxs = 8 * length C \<and> distinct idxs
                    \<and> (\<forall>k\<in>set idxs. 336 + k < length (elems a))
         else idxs = [0..<8 * length C]"
  shows "extract_message lib
           (a\<lparr>elems := write_all lsb (zip (map ((+) 336) idxs) (bytes_to_bits C))
                         (write_all lsb (zip [0..<336] (bytes_to_bits h)) (elems a))\<rparr>)
         = Inr (C, salt, nonce)"
proof -
  let ?hb = "bytes_to_bits h" and ?pb = "bytes_to_bits C"
  let ?pidx = "map ((+) 336) idxs"
  let ?fl1 = "write_all lsb (zip [0..<336] ?hb) (elems a)"
  let ?fl2 = "write_all lsb (zip ?pidx ?pb) ?fl1"
  have lhb: "length ?hb = 336" using lh by (simp add: length_bytes_to_bits)
  have lpb: "length ?pb = 8 * length C" by (simp add: length_bytes_to_bits)
  have len1: "length ?fl1 = length (elems a)" by (rule length_write_all)
  have len2: "length ?fl2 = length (elems a)" by (simp only: length_write_all)
  have li: "length idxs = 8 * length C" and di: "distinct idxs"
    and bi: "\<forall>k\<in>set idxs. 336 + k < length (elems a)"
    using idx fits by (auto split: if_splits)
  have ge: "336 \<le> length (elems a)" using fits by simp
  \<comment> \<open>the header region reads back as the header bits\<close>
  have hdr_bits: "map (\<lambda>s. s AND 1 = 1) (take 336 ?fl2) = ?hb"
  proof -
    have "map (\<lambda>s. s AND 1 = 1) (take 336 ?fl2) = map (\<lambda>k. ?fl2 ! k AND 1 = 1) [0..<336]"
      using map_nth_upt_take[of 336 ?fl2 "\<lambda>s. s AND 1 = 1"] ge len2 by simp
    also have "\<dots> = map (\<lambda>k. ?fl1 ! k AND 1 = 1) [0..<336]"
    proof (rule map_cong[OF refl])
      fix k assume "k \<in> set [0..<336]"
      then have "k \<notin> fst ` set (zip ?pidx ?pb)"
        by (auto dest!: set_zip_leftD)
      then have "?fl2 ! k = ?fl1 ! k"
        by (rule write_all_untouched)
      then show "(?fl2 ! k AND 1 = 1) = (?fl1 ! k AND 1 = 1)"
        by (simp only:)
    qed
    also have "\<dots> = ?hb"
      using read_back[of "[0..<336]" ?hb "elems a" lsb] lhb ge lsb by simp
    finally show ?thesis .
  qed
  \<comment> \<open>the payload positions read back as the payload bits\<close>
  have pay_bits: "map (\<lambda>k. ?fl2 ! k AND 1 = 1) ?pidx = ?pb"
  proof (rule read_back)
    show "distinct ?pidx" using di by (simp add: distinct_map)
    show "length ?pidx = length ?pb" using li lpb by simp
    show "\<forall>k\<in>set ?pidx. k < length ?fl1" using bi len1 by simp
    show "1 \<le> lsb" by (rule lsb)
  qed
  have ex: "extract_bits AudioTooShortForMessage ?pidx ?fl2 = Inr ?pb"
  proof -
    have "\<forall>k\<in>set ?pidx. k < length ?fl2" using bi len2 by simp
    then have "extract_bits AudioTooShortForMessage ?pidx ?fl2
                 = Inr (map (\<lambda>k. ?fl2 ! k AND 1 = 1) ?pidx)"
      by (rule extract_bits_ok)
    then show ?thesis by (simp only: pay_bits)
  qed
  have hdr: "parse_header (bits_to_bytes (map (\<lambda>s. s AND 1 = 1) (take 336 ?fl2)))
               = Inr \<lparr>h_version = v, h_lsb_bits = l, h_scatter = sc,
                    h_salt = salt, h_nonce = nonce, h_payload_length = length C\<rparr>"
    by (simp only: hdr_bits bits_to_bytes_bytes_to_bits ph)
  have idx': "if sc then generate_scatter_indices lib (length C * 8)
                      (int (length ?fl2) - 336) salt = Inr idxs
              else idxs = [0..<length C * 8]"
    using idx by (cases sc) (simp_all only: len2 mult.commute[of 8 "length C"] if_True if_False)
  have "extract_message lib (a\<lparr>elems := ?fl2\<rparr>) = Inr (bits_to_bytes ?pb, salt, nonce)"
    using ge[folded len2] hdr idx' ex by (rule extract_message_parsed)
  then show ?thesis by (simp only: bits_to_bytes_bytes_to_bits)
qed

lemma decrypt_encrypt_message:
  assumes "crypto_roundtrip clib"
    and "encrypt_message clib salt nonce message password = Inr (C, salt', nonce')"
  shows "salt' = salt \<and> nonce' = nonce
           \<and> decrypt_message clib C password salt nonce = Inr message"
proof -
  obtain mb where mb: "utf8_encode clib message = Inr mb"
    using assms(2) by (cases "utf8_encode clib message") (simp_all add: encrypt_message_def)
  obtain key where key: "derive_key clib password salt = Inr key"
    using assms(2) mb
    by (cases "derive_key clib password salt") (simp_all add: encrypt_message_def)
  obtain ct where ct: "aesgcm_encrypt clib key nonce mb = Inr ct"
    using assms(2) mb key
    by (cases "aesgcm_encrypt clib key nonce mb") (simp_all add: encrypt_message_def)
  from assms(2) mb key ct have sn: "ct = C" "salt' = salt" "nonce' = nonce"
    by (simp_all add: encrypt_message_def)
  from ct sn have enc: "aesgcm_encrypt clib key nonce mb = Inr C" by simp
  from assms(1) enc have "aesgcm_decrypt clib key nonce C = Inr mb"
    by (simp add: crypto_roundtrip_def)
  moreover from assms(1) mb have "utf8_decode clib mb = Inr message"
    by (simp add: crypto_roundtrip_def)
  ultimately show ?thesis
    using key sn by (simp add: decrypt_message_def)
qed

lemma embed_extract_roundtrip:
  assumes perm: "shuffle_permutes lib"
    and ls: "length salt = 16" and ln: "length nonce = 12"
    and lsb: "lsb_bits = 1 \<or> lsb_bits = 2"
    and lc: "length C < 2 ^ 32"
    and fits: "(42 + length C) * 8 \<le> length (elems audio)"
  shows "\<exists>audio'. embed_message lib audio C salt nonce lsb_bits scatter = Inr audio'
           \<and> extract_message lib audio' = Inr (C, salt, nonce)"
proof -
  from lsb have m: "lsb_bits mod 4 = lsb_bits" "lsb_bits mod 4 \<noteq> 0" "1 \<le> lsb_bits" by auto
  obtain h where h: "create_header salt nonce (length C) lsb_bits scatter = Inr h"
    and lh: "length h = 42"
    and ph: "parse_header h = Inr \<lparr>h_version = 1, h_lsb_bits = lsb_bits, h_scatter = scatter,
                h_salt = salt, h_nonce = nonce, h_payload_length = length C\<rparr>"
    using parse_create_header[OF lc, of salt nonce lsb_bits scatter] m ls ln
    by (auto simp: pack_s_exact)
  obtain idxs where idx: "if scatter then generate_scatter_indices lib (8 * length C)
                      (int (length (elems audio)) - 336) salt = Inr idxs
                    \<and> length idxs = 8 * length C \<and> distinct idxs
                    \<and> (\<forall>k\<in>set idxs. 336 + k < length (elems audio))
         else idxs = [0..<8 * length C]"
  proof (cases scatter)
    case True
    have "int (8 * length C) \<le> int (length (elems audio)) - 336" using fits by simp
    from scatter_indices_ok[OF perm this, of salt] obtain idxs where
      "generate_scatter_indices lib (8 * length C) (int (length (elems audio)) - 336) salt
         = Inr idxs" "length idxs = 8 * length C" "distinct idxs"
      "set idxs \<subseteq> {0..<nat (int (length (elems audio)) - 336)}"
      by blast
    moreover from this(4) have "\<forall>k\<in>set idxs. 336 + k < length (elems audio)" by auto
    ultimately show ?thesis using True that by simp
  next
    case False
    then show ?thesis using that by simp
  qed
  then have idx': "if scatter then generate_scatter_indices lib (8 * length C)
                      (int (length (elems audio)) - 336) salt = Inr idxs
                    \<and> length idxs = 8 * length C
                    \<and> (\<forall>k\<in>set idxs. 336 + k < length (elems audio))
         else idxs = [0..<8 * length C]"
    by (simp split: if_splits)
  have "embed_message lib audio C salt nonce lsb_bits scatter
          = Inr (audio\<lparr>elems := write_all lsb_bits (zip (map ((+) 336) idxs) (bytes_to_bits C))
                  (write_all lsb_bits (zip [0..<336] (bytes_to_bits h)) (elems audio))\<rparr>)"
    using h lh fits m(3) idx' by (rule embed_message_result)
  moreover have "extract_message lib
           (audio\<lparr>elems := write_all lsb_bits (zip (map ((+) 336) idxs) (bytes_to_bits C))
                  (write_all lsb_bits (zip [0..<336] (bytes_to_bits h)) (elems audio))\<rparr>)
         = Inr (C, salt, nonce)"
    using ph lh m(3) fits idx by (rule extract_embedded)
  ultimately show ?thesis by blast
qed

lemma mset_rotate_eq: "mset (rotate n xs) = mset xs"
  by (metis append_take_drop_id mset_append union_commute rotate_drop_take)

lemma example_lib_permutes: "shuffle_permutes example_lib"
  by (simp add: shuffle_permutes_def example_lib_def mset_rotate_eq)

lemma xor_twice_map: "(\<lambda>b. b XOR k) \<circ> (\<lambda>b. b XOR k) = (id :: byte \<Rightarrow> byte)"
  by (rule ext) (simp add: xor.assoc)

lemma example_cryptolib_roundtrip: "crypto_roundtrip example_cryptolib"
  by (simp add: crypto_roundtrip_def example_cryptolib_def xor_twice_map)

lemma embed_message_insufficient:
  assumes "length C < 2 ^ 32" and "length (elems a) * lsb < (42 + length C) * 8"
  shows "embed_message lib a C salt nonce lsb sc
           = Inl (EmbedFailed (InsufficientCapacity ((42 + length C) * 8)
                                 (length (elems a) * lsb)))"
proof -
  obtain h where "create_header salt nonce (length C) lsb sc = Inr h" "length h = 42"
    using parse_create_header[OF assms(1), of salt nonce lsb sc] by blast
  then show ?thesis using assms(2) by (rule embed_message_capacity_error)
qed

lemma embed_message_overrun:
  assumes "length C < 2 ^ 32" and "(42 + length C) * 8 \<le> length (elems a) * lsb"
    and "length (elems a) < (42 + length C) * 8"
  shows "embed_message lib a C salt nonce lsb sc
           = Inl (EmbedFailed (if 336 \<le> length (elems a) \<and> sc
                               then ScatterFailed NotEnoughSamples else IndexError))"
proof -
  obtain h where h: "create_header salt nonce (length C) lsb sc = Inr h" "length h = 42"
    using parse_create_header[OF assms(1), of salt nonce lsb sc] by blast
  show ?thesis
  proof (cases "336 \<le> length (elems a)")
    case True
    with embed_message_payload_overrun[OF h assms(2) True assms(3), of lib] show ?thesis
      by simp
  next
    case False
    then have "length (elems a) < 336" by simp
    with embed_message_header_overrun[OF h assms(2) this, of lib] show ?thesis by simp
  qed
qed

section \<open>Verification: round trip\<close>

text \<open>
  Claim C1, amended. When the header and the ciphertext fit at one bit per sample, that
  is \<open>(42 + len(C)) * 8 \<le> totalSamples\<close>, with a 16-byte salt, a 12-byte nonce,
  \<open>lsb_bits\<close> 1 or 2, either scatter setting and \<open>len(C) < 2^32\<close>, \<open>embed_message\<close>
  succeeds and \<open>extract_message\<close> of its result returns exactly \<open>(C, salt, nonce)\<close>;
  \<open>decrypt_message\<close> returns the message from what \<open>encrypt_message\<close> produced; and
  decoding the embedded buffer with the password returns the message. The libraries are assumed
  to shuffle by permuting and to decrypt what they encrypted.
\<close>

theorem stego_roundtrip:
  "(shuffle_permutes lib \<and> length salt = 16 \<and> length nonce = 12
      \<and> (lsb_bits = 1 \<or> lsb_bits = 2) \<and> length C < 2 ^ 32
      \<and> (42 + length C) * 8 \<le> length (elems audio)
    \<longrightarrow> (\<exists>audio'. embed_message lib audio C salt nonce lsb_bits scatter = Inr audio'
           \<and> extract_message lib audio' = Inr (C, salt, nonce)))
   \<and> (crypto_roundtrip clib
      \<and> encrypt_message clib salt nonce message password = Inr (C, salt, nonce)
    \<longrightarrow> decrypt_message clib C password salt nonce = Inr message)
   \<and> (shuffle_permutes lib \<and> length salt = 16 \<and> length nonce = 12
      \<and> (lsb_bits = 1 \<or> lsb_bits = 2) \<and> length C < 2 ^ 32
      \<and> (42 + length C) * 8 \<le> length (elems audio)
      \<and> crypto_roundtrip clib
      \<and> encrypt_message clib salt nonce message password = Inr (C, salt, nonce)
    \<longrightarrow> (\<exists>audio'. embed_message lib audio C salt nonce lsb_bits scatter = Inr audio'
           \<and> decode_worker clib lib audio' password = Inr message))"
proof (intro conjI impI)
  assume "shuffle_permutes lib \<and> length salt = 16 \<and> length nonce = 12
      \<and> (lsb_bits = 1 \<or> lsb_bits = 2) \<and> length C < 2 ^ 32
      \<and> (42 + length C) * 8 \<le> length (elems audio)"
  then show "\<exists>audio'. embed_message lib audio C salt nonce lsb_bits scatter = Inr audio'
           \<and> extract_message lib audio' = Inr (C, salt, nonce)"
    by (intro embed_extract_roundtrip) simp_all
next
  assume "crypto_roundtrip clib
      \<and> encrypt_message clib salt nonce message password = Inr (C, salt, nonce)"
  then show "decrypt_message clib C password salt nonce = Inr message"
    using decrypt_encrypt_message[of clib salt nonce message password C salt nonce] by simp
next
  assume a: "shuffle_permutes lib \<and> length salt = 16 \<and> length nonce = 12
      \<and> (lsb_bits = 1 \<or> lsb_bits = 2) \<and> length C < 2 ^ 32
      \<and> (42 + length C) * 8 \<le> length (elems audio)
      \<and> crypto_roundtrip clib
      \<and> encrypt_message clib salt nonce message password = Inr (C, salt, nonce)"
  then obtain audio' where e: "embed_message lib audio C salt nonce lsb_bits scatter = Inr audio'"
    and x: "extract_message lib audio' = Inr (C, salt, nonce)"
    using embed_extract_roundtrip[of lib salt nonce lsb_bits C audio scatter] by auto
  from a have "decrypt_message clib C password salt nonce = Inr message"
    using decrypt_encrypt_message[of clib salt nonce message password C salt nonce] by simp
  with x have "decode_worker clib lib audio' password = Inr message"
    by (simp add: decode_worker_def)
  with e show "\<exists>audio'. embed_message lib audio C salt nonce lsb_bits scatter = Inr audio'
           \<and> decode_worker clib lib audio' password = Inr message"
    by blast
qed

theorem stego_roundtrip_witness:
  "(\<exists>audio'. embed_message example_lib \<lparr>shape = [600], elems = replicate 600 0\<rparr>
        ([0x18, 0x19] @ replicate 16 0x70) (replicate 16 1) (replicate 12 2) 1 True = Inr audio'
      \<and> extract_message example_lib audio' = Inr (([0x18, 0x19] @ replicate 16 0x70), replicate 16 1, replicate 12 2))
   \<and> decrypt_message example_cryptolib ([0x18, 0x19] @ replicate 16 0x70) [0x70] (replicate 16 1) (replicate 12 2)
       = Inr [0x68, 0x69]
   \<and> (\<exists>audio'. embed_message example_lib \<lparr>shape = [600], elems = replicate 600 0\<rparr>
        ([0x18, 0x19] @ replicate 16 0x70) (replicate 16 1) (replicate 12 2) 1 True = Inr audio'
      \<and> decode_worker example_cryptolib example_lib audio' [0x70] = Inr [0x68, 0x69])"
proof -
  let ?C = "[0x18, 0x19] @ replicate 16 0x70 :: byte list"
  let ?a = "\<lparr>shape = [600], elems = replicate 600 (0::sample)\<rparr>"
  note t = stego_roundtrip[of example_lib "replicate 16 1" "replicate 12 2" 1 ?C ?a True
             example_cryptolib "[0x68, 0x69]" "[0x70]"]
  have enc: "encrypt_message example_cryptolib (replicate 16 1) (replicate 12 2) [0x68, 0x69] [0x70]
               = Inr (?C, replicate 16 1, replicate 12 2)"
    by (simp add: encrypt_message_def derive_key_def example_cryptolib_def key_length_def)
  have p1: "shuffle_permutes example_lib \<and> length (replicate 16 (1::byte)) = 16
      \<and> length (replicate 12 (2::byte)) = 12
      \<and> ((1::nat) = 1 \<or> (1::nat) = 2) \<and> length ?C < 2 ^ 32
      \<and> (42 + length ?C) * 8 \<le> length (elems ?a)"
    using example_lib_permutes by simp
  have p2: "crypto_roundtrip example_cryptolib
      \<and> encrypt_message example_cryptolib (replicate 16 1) (replicate 12 2) [0x68, 0x69] [0x70]
            = Inr (?C, replicate 16 1, replicate 12 2)"
    using example_cryptolib_roundtrip enc by (rule conjI)
  have p3: "shuffle_permutes example_lib \<and> length (replicate 16 (1::byte)) = 16
      \<and> length (replicate 12 (2::byte)) = 12
      \<and> ((1::nat) = 1 \<or> (1::nat) = 2) \<and> length ?C < 2 ^ 32
      \<and> (42 + length ?C) * 8 \<le> length (elems ?a)
      \<and> crypto_roundtrip example_cryptolib
      \<and> encrypt_message example_cryptolib (replicate 16 1) (replicate 12 2) [0x68, 0x69] [0x70]
            = Inr (?C, replicate 16 1, replicate 12 2)"
    using p1 p2 by blast
  show ?thesis
    using t[THEN conjunct1, rule_format, OF p1]
      t[THEN conjunct2, THEN conjunct1, rule_format, OF p2]
      t[THEN conjunct2, THEN conjunct2, rule_format, OF p3]
    by (intro conjI)
qed

text \<open>
  Claim C1 as stated fails where the capacity is not what fits. An empty buffer has capacity
  \<open>max(0, 0 - 42) = 0\<close>, so an empty ciphertext is within capacity, yet embedding it fails
  with the capacity error (336 bits needed, 0 available). And in a buffer of 376 samples,
  of capacity 5 at one bit, a 5-byte message is within capacity, but its ciphertext carries
  the 16-byte tag and needs 504 bits.
\<close>

theorem stego_roundtrip_counterexample:
  "calculate_capacity \<lparr>shape = [0], elems = []\<rparr> 1 = Inr 0
   \<and> int (length ([] :: byte list)) \<le> 0
   \<and> embed_message example_lib \<lparr>shape = [0], elems = []\<rparr> [] (replicate 16 1)
         (replicate 12 2) 1 False
       = Inl (EmbedFailed (InsufficientCapacity 336 0))
   \<and> calculate_capacity \<lparr>shape = [376], elems = replicate 376 0\<rparr> 1 = Inr 5
   \<and> encrypt_message example_cryptolib (replicate 16 1) (replicate 12 2)
         [0x68, 0x65, 0x6C, 0x6C, 0x6F] [0x70]
       = Inr (([0x18, 0x15, 0x1C, 0x1C, 0x1F] @ replicate 16 0x70), replicate 16 1, replicate 12 2)
   \<and> embed_message example_lib \<lparr>shape = [376], elems = replicate 376 0\<rparr>
         ([0x18, 0x15, 0x1C, 0x1C, 0x1F] @ replicate 16 0x70) (replicate 16 1) (replicate 12 2) 1 False
       = Inl (EmbedFailed (InsufficientCapacity 504 376))"
proof -
  have "embed_message example_lib \<lparr>shape = [0], elems = []\<rparr> [] (replicate 16 1)
         (replicate 12 2) 1 False
       = Inl (EmbedFailed (InsufficientCapacity 336 0))"
    using embed_message_insufficient[of "[]" "\<lparr>shape = [0], elems = []\<rparr>" 1 example_lib
            "replicate 16 1" "replicate 12 2" False]
    by simp
  moreover have "embed_message example_lib \<lparr>shape = [376], elems = replicate 376 0\<rparr>
         ([0x18, 0x15, 0x1C, 0x1C, 0x1F] @ replicate 16 0x70) (replicate 16 1) (replicate 12 2) 1 False
       = Inl (EmbedFailed (InsufficientCapacity 504 376))"
    using embed_message_insufficient[of "[0x18, 0x15, 0x1C, 0x1C, 0x1F] @ replicate 16 0x70"
            "\<lparr>shape = [376], elems = replicate 376 0\<rparr>" 1 example_lib
            "replicate 16 1" "replicate 12 2" False]
    by simp
  moreover have "encrypt_message example_cryptolib (replicate 16 1) (replicate 12 2)
         [0x68, 0x65, 0x6C, 0x6C, 0x6F] [0x70]
       = Inr (([0x18, 0x15, 0x1C, 0x1C, 0x1F] @ replicate 16 0x70), replicate 16 1, replicate 12 2)"
    by (simp add: encrypt_message_def derive_key_def example_cryptolib_def key_length_def)
  ultimately show ?thesis
    by (simp add: calculate_capacity_def header_size_def)
qed

section \<open>Verification: scatter generator\<close>

text \<open>
  Claim C6. \<open>_generate_scatter_indices\<close> fails exactly when \<open>count > total_samples\<close>;
  otherwise it returns the first \<open>count\<close> entries of the shuffle of \<open>[0, total_samples)\<close>
  under the generator seeded with the big-endian value of the first four bytes of the hash of
  the salt followed by the tag. With a shuffle that permutes, these are \<open>count\<close> distinct
  indices below \<open>total_samples\<close>. The result depends on the salt, the total and the count
  only, and a shorter request under the same salt and total is a prefix of a longer one.
\<close>

theorem scatter_generator_contract:
  "generate_scatter_indices lib cnt tot salt =
     (if tot < int cnt then Inl (ScatterFailed NotEnoughSamples)
      else Inr (take cnt (random_shuffle lib
                  (int_from_bytes_big (take 4 (sha256_digest lib (salt @ scatter_tag))))
                  [0..<nat tot])))
   \<and> (shuffle_permutes lib \<and> int cnt \<le> tot
      \<longrightarrow> (\<exists>idxs. generate_scatter_indices lib cnt tot salt = Inr idxs \<and> length idxs = cnt
             \<and> distinct idxs \<and> set idxs \<subseteq> {0..<nat tot}))
   \<and> (cnt \<le> cnt' \<and> int cnt' \<le> tot
      \<longrightarrow> (\<exists>idxs'. generate_scatter_indices lib cnt' tot salt = Inr idxs'
             \<and> generate_scatter_indices lib cnt tot salt = Inr (take cnt idxs')))"
proof (intro conjI impI)
  show "generate_scatter_indices lib cnt tot salt =
     (if tot < int cnt then Inl (ScatterFailed NotEnoughSamples)
      else Inr (take cnt (random_shuffle lib
                  (int_from_bytes_big (take 4 (sha256_digest lib (salt @ scatter_tag))))
                  [0..<nat tot])))"
    by (simp add: generate_scatter_indices_def Let_def)
next
  assume "shuffle_permutes lib \<and> int cnt \<le> tot"
  then show "\<exists>idxs. generate_scatter_indices lib cnt tot salt = Inr idxs \<and> length idxs = cnt
             \<and> distinct idxs \<and> set idxs \<subseteq> {0..<nat tot}"
    by (intro scatter_indices_ok) simp_all
next
  assume "cnt \<le> cnt' \<and> int cnt' \<le> tot"
  then show "\<exists>idxs'. generate_scatter_indices lib cnt' tot salt = Inr idxs'
             \<and> generate_scatter_indices lib cnt tot salt = Inr (take cnt idxs')"
    by (simp add: generate_scatter_indices_def Let_def min_def)
qed

theorem scatter_generator_contract_witness:
  "(\<exists>idxs. generate_scatter_indices example_lib 3 5 [1, 2, 3] = Inr idxs \<and> length idxs = 3
        \<and> distinct idxs \<and> set idxs \<subseteq> {0..<nat 5})
   \<and> (\<exists>idxs'. generate_scatter_indices example_lib 4 5 [1, 2, 3] = Inr idxs'
        \<and> generate_scatter_indices example_lib 3 5 [1, 2, 3] = Inr (take 3 idxs'))"
proof -
  note t = scatter_generator_contract[of example_lib 3 5 "[1, 2, 3]" 4]
  have p1: "shuffle_permutes example_lib \<and> int 3 \<le> 5"
    using example_lib_permutes by simp
  have p2: "(3::nat) \<le> 4 \<and> int 4 \<le> 5" by simp
  show ?thesis
    using t[THEN conjunct2, THEN conjunct1, rule_format, OF p1]
      t[THEN conjunct2, THEN conjunct2, rule_format, OF p2]
    by (intro conjI)
qed

section \<open>Verification: capacity boundary\<close>

text \<open>
  Claim C2 asks that embedding succeeds whenever the required bits are at most
  \<open>total_samples * lsb_bits\<close>. With \<open>lsb_bits = 2\<close> the check lets through payloads that
  the loops, which use one sample per bit, cannot place: in 336 samples the capacity is
  reported as 42 bytes, one byte needs 344 of the 672 available bits, and embedding it fails
  with the \<open>IndexError\<close> of sample 336 (sequential) or with the scatter generator's error
  (scatter). For \<open>lsb_bits = 1\<close> the boundary is as claimed
  (\<open>embed_capacity_boundary_one_bit\<close>, \<open>embed_message_insufficient\<close>).
\<close>

theorem embed_within_capacity_fails:
  "calculate_capacity \<lparr>shape = [336], elems = replicate 336 0\<rparr> 2 = Inr 42
   \<and> (42 + length [0xA5 :: byte]) * 8
       \<le> length (elems \<lparr>shape = [336], elems = replicate 336 (0::sample)\<rparr>) * 2
   \<and> (\<forall>lib. embed_message lib \<lparr>shape = [336], elems = replicate 336 0\<rparr> [0xA5]
              (replicate 16 1) (replicate 12 2) 2 False
            = Inl (EmbedFailed IndexError))
   \<and> (\<forall>lib. embed_message lib \<lparr>shape = [336], elems = replicate 336 0\<rparr> [0xA5]
              (replicate 16 1) (replicate 12 2) 2 True
            = Inl (EmbedFailed (ScatterFailed NotEnoughSamples)))"
proof -
  let ?a = "\<lparr>shape = [336], elems = replicate 336 (0::sample)\<rparr>"
  have "embed_message lib ?a [0xA5] (replicate 16 1) (replicate 12 2) 2 sc
          = Inl (EmbedFailed (if 336 \<le> length (elems ?a) \<and> sc
                               then ScatterFailed NotEnoughSamples else IndexError))"
    for lib sc
    by (rule embed_message_overrun) simp_all
  then show ?thesis
    by (simp add: calculate_capacity_def header_size_def)
qed

lemma embed_capacity_boundary_one_bit:
  assumes "shuffle_permutes lib" and "length salt = 16" and "length nonce = 12"
    and "length C < 2 ^ 32"
  shows "(\<exists>audio'. embed_message lib audio C salt nonce 1 scatter = Inr audio')
           \<longleftrightarrow> (42 + length C) * 8 \<le> length (elems audio) * 1"
proof (cases "(42 + length C) * 8 \<le> length (elems audio) * 1")
  case True
  then show ?thesis
    using embed_extract_roundtrip[OF assms(1,2,3) _ assms(4), of 1 audio scatter] by auto
next
  case False
  then show ?thesis
    using embed_message_insufficient[OF assms(4), of audio 1 lib salt nonce scatter] by simp
qed


end
